theory Spec2Isabelle
  imports Main "HOL-Library.Sublist"
begin

section \<open>The session object of \<open>frontend/utils/socket.ts\<close>\<close>

text \<open>
  The class \<open>Socket\<close> multiplexes requests and path subscriptions over one transport
  (a \<open>RiftSocket\<close>). Its methods are embedded as functions on a record of the object's
  fields. Everything the object does to its surroundings is kept in order: the texts handed
  to the transport's \<open>send\<close> are collected in the transport, and the calls of handlers, the
  resolutions of promises, the console lines, the configuration write and the transport's
  \<open>close\<close> are collected in the field \<open>effects\<close>, which is not a field of the class.
  Two more fields stand for objects of the caller that the session works with: the
  \<open>RegExp\<close> objects that observers refer to, and what each handler does when it is called.
  A method that can throw returns the exception next to the object as the throw left it.
\<close>

subsection \<open>Values on the wire\<close>

text \<open>The parsed body of a response (\<open>content: any\<close>); numbers are kept as integers.\<close>

datatype json =
    JNull
  | JBool bool
  | JNum int
  | JStr string
  | JArr "json list"
  | JObj "(string \<times> json) list"

text \<open>\<open>interface Result\<close>.\<close>

record Result =
  status :: int
  content :: json

text \<open>Modelled from the spec: the enum \<open>MobileOpcode\<close> is declared in \<open>rift-socket.ts\<close>, which
  is not among the sources, so the numbers of the opcodes are unknown. A frame is kept as
  the name of its opcode with the remaining elements of the array (section 6 of the
  specification), and stands for the JSON text of that array. These are the frames the
  session sends; \<open>REQUEST\<close> carries id, path, method and the optional body.
\<close>

datatype frame =
    HANDSHAKE
  | SUBSCRIBE string
  | UNSUBSCRIBE string
  | REQUEST int string string "string option"

text \<open>
  \<open>type WebsocketMessage\<close>: what \<open>JSON.parse\<close> yields for a frame the session receives,
  by opcode: \<open>[UPDATE, path, status, content]\<close>, \<open>[RESPONSE, id, status, content]\<close>,
  \<open>[HANDSHAKE_COMPLETE, version, name, token]\<close>, and \<open>OTHER\<close> for an array that starts with
  none of the three.
\<close>

datatype WebsocketMessage =
    UPDATE string int json
  | RESPONSE int int json
  | HANDSHAKE_COMPLETE string string string
  | OTHER

subsection \<open>Observers\<close>

text \<open>
  A \<open>RegExp\<close> is a built-in object; the session reads its \<open>source\<close> and calls its \<open>test\<close>.
  \<open>sticky_or_global\<close> says whether it has the flag \<open>g\<close> or \<open>y\<close>; such an object keeps in
  \<open>lastIndex\<close> where the next match starts. \<open>exec_from i t\<close> is the matcher of the pattern:
  the index just after the match in \<open>t\<close> when matching starts at index \<open>i\<close>, \<open>None\<close> when
  there is no match.
\<close>

record RegExp =
  source :: string
  sticky_or_global :: bool
  lastIndex :: nat
  exec_from :: "nat \<Rightarrow> string \<Rightarrow> nat option"

text \<open>
  \<open>RegExp.prototype.test\<close>: the answer and the object afterwards. Without \<open>g\<close> and \<open>y\<close> the
  match starts at 0 and \<open>lastIndex\<close> is left alone. With one of them the match starts at
  \<open>lastIndex\<close>, which then moves behind the match, or back to 0 when there is none.
\<close>

definition RegExp_test :: "RegExp \<Rightarrow> string \<Rightarrow> bool \<times> RegExp" where
  "RegExp_test r t =
     (if \<not> sticky_or_global r then (exec_from r 0 t \<noteq> None, r)
      else if length t < lastIndex r then (False, r\<lparr>lastIndex := 0\<rparr>)
      else (case exec_from r (lastIndex r) t of
              None \<Rightarrow> (False, r\<lparr>lastIndex := 0\<rparr>)
            | Some e \<Rightarrow> (True, r\<lparr>lastIndex := e\<rparr>)))"

text \<open>
  \<open>matcher: string | RegExp\<close>. A \<open>RegExp\<close> is an object: the matcher holds its address, so
  that two observers can share one, and the objects are in the field \<open>regexps\<close> of the
  session record.
\<close>

datatype Matcher = Path string | Pattern nat

text \<open>
  An element of \<open>observers\<close>. A handler is a callback of the caller; the model knows it by
  a value of type \<open>'h\<close> and records each call in \<open>effects\<close>. A call returns or throws (the
  field \<open>throws\<close> of the session record); it does not call back into the session.
\<close>

record 'h Observer =
  matcher :: Matcher
  handler :: 'h

subsection \<open>The transport\<close>

text \<open>The four values of a WebSocket's \<open>readyState\<close>.\<close>

datatype ReadyState = CONNECTING | OPEN | CLOSING | CLOSED

text \<open>The three closures that \<open>connect\<close> assigns to the transport's event properties.\<close>

datatype callback = OnOpen | HandleWebsocketMessage | OnClose

text \<open>Modelled from the spec: the class \<open>RiftSocket\<close> is declared in \<open>rift-socket.ts\<close>, which is
  not among the sources. Section 6 gives its interface: a constructor bound to a code,
  \<open>send(text)\<close>, the assignable \<open>onopen\<close>, \<open>onmessage\<close> and \<open>onclose\<close> (\<open>None\<close> is \<open>null\<close>) and a
  \<open>readyState\<close>. The field \<open>sent\<close> holds the frames handed to \<open>send\<close>, oldest first.
\<close>

record RiftSocket =
  boundCode :: string
  readyState :: ReadyState
  onopen :: "callback option"
  onmessage :: "callback option"
  onclose :: "callback option"
  sent :: "frame list"

text \<open>Modelled from the spec: the transport that \<open>new RiftSocket(code)\<close> returns has sent
  nothing, has no handler yet and is not open.
\<close>

definition RiftSocket_new :: "string \<Rightarrow> RiftSocket" where
  "RiftSocket_new c =
     \<lparr>boundCode = c, readyState = CONNECTING, onopen = None, onmessage = None,
      onclose = None, sent = []\<rparr>"

subsection \<open>The session\<close>

text \<open>
  What the session can throw: \<open>new Error(message)\<close>, and the \<open>TypeError\<close> of the runtime
  for a property read on \<open>null\<close>.
\<close>

datatype exn = Error string | TypeError

text \<open>
  An entry of \<open>requests\<close>: the \<open>resolve\<close> function of the promise that \<open>request\<close> made,
  together with the handler chained on that promise by \<open>.then(handler)\<close>, if any.
\<close>

datatype 'h Resolve = Resolve "'h option"

text \<open>
  What the session does to its surroundings: a line on the console, a call of a handler, a
  promise of \<open>request\<close> (named by the request's id) resolved or rejected, the computer name
  handed to \<open>withComputerConfig\<close>, and \<open>close()\<close> called on a transport, with the transport
  as it was at the call.
\<close>

datatype 'h effect =
    Log string
  | Call 'h Result
  | Resolved int Result
  | Rejected int exn
  | SaveComputerName string
  | SocketClose RiftSocket

text \<open>
  \<open>idCounter++\<close> on a JavaScript number, which is a double: below \<open>2^53\<close> the sum is exact;
  from there on \<open>n + 1\<close> is rounded to the nearest double, ties to the even mantissa, so
  that \<open>2^53\<close> stays \<open>2^53\<close>. The counter starts at 0 and nothing else writes it.
\<close>

definition number_succ :: "nat \<Rightarrow> nat" where
  "number_succ n =
     (if n < 2 ^ 53 then n + 1
      else if n < 2 ^ 54 \<and> odd (n div 2) then n + 2
      else n)"

text \<open>
  The fields of \<open>class Socket\<close>, and after them what is not a field of the class: the
  \<open>RegExp\<close> objects by address, the exception that a handler throws when it is called with
  a result (\<open>None\<close> when it returns), and the trace \<open>effects\<close>. \<open>socket\<close> is \<open>None\<close> while the
  field is unset or \<open>null\<close>.
\<close>

record 'h Socket =
  connected :: bool
  connecting :: bool
  socket :: "RiftSocket option"
  computerName :: string
  computerVersion :: string
  pushNotificationSubscriptionToken :: string
  code :: string
  idCounter :: nat
  observers :: "'h Observer list"
  requests :: "int \<rightharpoonup> 'h Resolve"
  regexps :: "nat \<Rightarrow> RegExp"
  throws :: "'h \<Rightarrow> Result \<Rightarrow> exn option"
  effects :: "'h effect list"

text \<open>A pattern without flags that accepts nothing.\<close>

definition RegExp_never :: RegExp where
  "RegExp_never =
     \<lparr>source = ''(?!)'', sticky_or_global = False, lastIndex = 0, exec_from = (\<lambda>i t. None)\<rparr>"

text \<open>
  The object as the field initialisers of the class leave it, among handlers that all
  return.
\<close>

definition Socket_new :: "'h Socket" where
  "Socket_new =
     \<lparr>connected = False, connecting = False, socket = None, computerName = [],
      computerVersion = [], pushNotificationSubscriptionToken = [], code = [],
      idCounter = 0, observers = [], requests = Map.empty,
      regexps = (\<lambda>a. RegExp_never), throws = (\<lambda>h r. None), effects = []\<rparr>"

definition emit :: "'h effect \<Rightarrow> 'h Socket \<Rightarrow> 'h Socket" where
  "emit e s = s\<lparr>effects := effects s @ [e]\<rparr>"

text \<open>
  \<open>this.socket.send(text)\<close>: reading \<open>send\<close> of \<open>null\<close> throws a \<open>TypeError\<close>; otherwise the
  transport takes the frame.
\<close>

definition socket_send :: "frame \<Rightarrow> 'h Socket \<Rightarrow> exn option \<times> 'h Socket" where
  "socket_send f s =
     (case socket s of
        None \<Rightarrow> (Some TypeError, s)
      | Some rs \<Rightarrow> (None, s\<lparr>socket := Some (rs\<lparr>sent := sent rs @ [f]\<rparr>)\<rparr>))"

text \<open>
  \<open>request(path, method = "GET", body?)\<close>. The throw of line 90 is synchronous. The body of
  the promise runs at once: it takes the id, counts up (\<open>idCounter++\<close>), sends, and stores
  \<open>resolve\<close>; an exception inside it rejects the promise instead of reaching the caller.
  The result is the promise, named by the id of its request.
\<close>

definition request ::
  "string \<Rightarrow> string option \<Rightarrow> string option \<Rightarrow> 'h Socket \<Rightarrow> (exn + int) \<times> 'h Socket" where
  "request path meth body s =
     (if \<not> connected s then (Inl (Error ''Not connected.''), s)
      else
        let m = (case meth of None \<Rightarrow> ''GET'' | Some x \<Rightarrow> x);
            i = int (idCounter s);
            s1 = s\<lparr>idCounter := number_succ (idCounter s)\<rparr>
        in case socket_send (REQUEST i path m body) s1 of
             (Some e, s2) \<Rightarrow> (Inr i, emit (Rejected i e) s2)
           | (None, s2) \<Rightarrow> (Inr i, s2\<lparr>requests := (requests s2)(i \<mapsto> Resolve None)\<rparr>))"

text \<open>
  \<open>.then(handler)\<close> on the promise of request \<open>p\<close>, right after \<open>request\<close> made it: the
  handler will run with the promise's value. On a rejected promise it never runs.
\<close>

definition promise_then :: "int \<Rightarrow> 'h \<Rightarrow> 'h Socket \<Rightarrow> 'h Socket" where
  "promise_then p h s =
     (case requests s p of
        None \<Rightarrow> s
      | Some r \<Rightarrow> s\<lparr>requests := (requests s)(p \<mapsto> Resolve (Some h))\<rparr>)"

text \<open>\<open>this.request(path).then(handler)\<close>, with the default method and no body.\<close>

definition request_then :: "string \<Rightarrow> 'h \<Rightarrow> 'h Socket \<Rightarrow> exn option \<times> 'h Socket" where
  "request_then path h s =
     (case request path None None s of
        (Inl e, s1) \<Rightarrow> (Some e, s1)
      | (Inr p, s1) \<Rightarrow> (None, promise_then p h s1))"

text \<open>\<open>typeof path === "string" ? path : path.source\<close>.\<close>

definition matcher_text :: "(nat \<Rightarrow> RegExp) \<Rightarrow> Matcher \<Rightarrow> string" where
  "matcher_text rx m = (case m of Path p \<Rightarrow> p | Pattern a \<Rightarrow> source (rx a))"

definition push_observer :: "Matcher \<Rightarrow> 'h \<Rightarrow> 'h Socket \<Rightarrow> 'h Socket" where
  "push_observer path h s = s\<lparr>observers := observers s @ [\<lparr>matcher = path, handler = h\<rparr>]\<rparr>"

text \<open>\<open>observe(path, handler)\<close>.\<close>

definition observe :: "Matcher \<Rightarrow> 'h \<Rightarrow> 'h Socket \<Rightarrow> exn option \<times> 'h Socket" where
  "observe path h s =
     (if connected s then
        (case (case path of Path p \<Rightarrow> request_then p h s | Pattern r \<Rightarrow> (None, s)) of
           (Some e, s1) \<Rightarrow> (Some e, s1)
         | (None, s1) \<Rightarrow>
             (case socket_send (SUBSCRIBE (matcher_text (regexps s1) path)) s1 of
                (Some e, s2) \<Rightarrow> (Some e, s2)
              | (None, s2) \<Rightarrow> (None, push_observer path h s2)))
      else (None, push_observer path h s))"

text \<open>
  The callback of the filter in \<open>unobserve\<close>, run over the observers from the first to the
  last: an observer whose matcher is not the string \<open>path\<close> is kept (a \<open>RegExp\<close> is never
  \<open>===\<close> a string); for one that is dropped an \<open>UNSUBSCRIBE\<close> goes out if there is a
  transport and its \<open>readyState\<close> is \<open>OPEN\<close>. The result is the kept observers and the session.
\<close>

fun unobserve_filter ::
  "string \<Rightarrow> 'h Observer list \<Rightarrow> 'h Socket \<Rightarrow> 'h Observer list \<times> 'h Socket" where
  "unobserve_filter path [] s = ([], s)"
| "unobserve_filter path (x # xs) s =
     (if (case matcher x of Path p \<Rightarrow> p \<noteq> path | Pattern r \<Rightarrow> True) then
        (case unobserve_filter path xs s of (kept, s1) \<Rightarrow> (x # kept, s1))
      else
        unobserve_filter path xs
          (case socket s of
             None \<Rightarrow> s
           | Some rs \<Rightarrow>
               if readyState rs = OPEN then snd (socket_send (UNSUBSCRIBE path) s) else s))"

text \<open>\<open>unobserve(path)\<close>: the filtered array is assigned after the filter has run.\<close>

definition unobserve :: "string \<Rightarrow> 'h Socket \<Rightarrow> 'h Socket" where
  "unobserve path s =
     (case unobserve_filter path (observers s) s of (kept, s1) \<Rightarrow> s1\<lparr>observers := kept\<rparr>)"

text \<open>
  The filter on an \<open>UPDATE\<close> frame (lines 115 to 117), run over the observers from the
  first to the last with the test
  \<open>typeof x.matcher === "string" ? data[1] === x.matcher : x.matcher.test(data[1])\<close>.
  Each call of \<open>test\<close> may move the \<open>lastIndex\<close> of its object. The result is the observers
  that passed and the \<open>RegExp\<close> objects afterwards.
\<close>

fun update_filter ::
  "string \<Rightarrow> 'h Observer list \<Rightarrow> (nat \<Rightarrow> RegExp) \<Rightarrow> 'h Observer list \<times> (nat \<Rightarrow> RegExp)" where
  "update_filter path [] rx = ([], rx)"
| "update_filter path (x # xs) rx =
     (case matcher x of
        Path p \<Rightarrow>
          (case update_filter path xs rx of
             (kept, rx1) \<Rightarrow> (if path = p then x # kept else kept, rx1))
      | Pattern a \<Rightarrow>
          (case RegExp_test (rx a) path of
             (accepted, r1) \<Rightarrow>
               (case update_filter path xs (rx(a := r1)) of
                  (kept, rx1) \<Rightarrow> (if accepted then x # kept else kept, rx1))))"

text \<open>
  The \<open>forEach\<close> of line 118: the handlers are called one after the other. There is no
  \<open>try\<close> around the call: a handler that throws ends the loop, and the exception leaves
  the router.
\<close>

fun call_handlers :: "Result \<Rightarrow> 'h Observer list \<Rightarrow> 'h Socket \<Rightarrow> exn option \<times> 'h Socket" where
  "call_handlers r [] s = (None, s)"
| "call_handlers r (x # xs) s =
     (case throws s (handler x) r of
        Some e \<Rightarrow> (Some e, emit (Call (handler x) r) s)
      | None \<Rightarrow> call_handlers r xs (emit (Call (handler x) r) s))"

text \<open>
  Lines 121 to 127: the entry of \<open>requests\<close> under the id, if there is one, is called with
  the result and deleted. Calling \<open>resolve\<close> fulfils the promise; a handler chained on it
  then runs with the same result, before any later event is handled. An exception of
  that handler rejects the promise that \<open>then\<close> returned and does not reach the router.
\<close>

definition resolve_request :: "int \<Rightarrow> Result \<Rightarrow> 'h Socket \<Rightarrow> 'h Socket" where
  "resolve_request i r s =
     (case requests s i of
        None \<Rightarrow> s
      | Some (Resolve k) \<Rightarrow>
          (let s1 = emit (Resolved i r) s;
               s2 = (case k of None \<Rightarrow> s1 | Some h \<Rightarrow> emit (Call h r) s1)
           in s2\<lparr>requests := (requests s2)(i := None)\<rparr>))"

text \<open>
  The \<open>forEach\<close> of lines 142 to 152: for each observer a \<open>SUBSCRIBE\<close>, and for a string
  matcher \<open>this.request(x.matcher).then(x.handler)\<close>. An exception ends the loop and leaves
  the function.
\<close>

fun populate :: "'h Observer list \<Rightarrow> 'h Socket \<Rightarrow> exn option \<times> 'h Socket" where
  "populate [] s = (None, s)"
| "populate (x # xs) s =
     (case socket_send (SUBSCRIBE (matcher_text (regexps s) (matcher x))) s of
        (Some e, s1) \<Rightarrow> (Some e, s1)
      | (None, s1) \<Rightarrow>
          (case matcher x of
             Path p \<Rightarrow>
               (case request_then p (handler x) s1 of
                  (Some e, s2) \<Rightarrow> (Some e, s2)
                | (None, s2) \<Rightarrow> populate xs s2)
           | Pattern r \<Rightarrow> populate xs s1))"

text \<open>
  \<open>handleWebsocketMessage(msg)\<close>. \<open>JSON_parse\<close> is the built-in parser: \<open>None\<close> where it
  throws. The three \<open>if\<close>s run one after the other, as in the source; an exception in the
  first leaves the function. The status of an update is \<open>+data[2]\<close>, which is \<open>data[2]\<close>
  itself for a number.
\<close>

definition handleWebsocketMessage ::
  "(string \<Rightarrow> WebsocketMessage option) \<Rightarrow> string \<Rightarrow> 'h Socket \<Rightarrow> exn option \<times> 'h Socket" where
  "handleWebsocketMessage JSON_parse msg_data s =
     (case JSON_parse msg_data of
        None \<Rightarrow> (None, emit (Log (msg_data @ '' was not valid JSON, ignoring.'')) s)
      | Some data \<Rightarrow>
          (case (case data of
                   UPDATE path st c \<Rightarrow>
                     (case update_filter path (observers s) (regexps s) of
                        (kept, rx) \<Rightarrow>
                          call_handlers \<lparr>status = st, content = c\<rparr> kept (s\<lparr>regexps := rx\<rparr>))
                 | _ \<Rightarrow> (None, s)) of
             (Some e, s1) \<Rightarrow> (Some e, s1)
           | (None, s1) \<Rightarrow>
               (let s2 = (case data of
                            RESPONSE i st c \<Rightarrow>
                              resolve_request i \<lparr>status = st, content = c\<rparr> s1
                          | _ \<Rightarrow> s1)
                in case data of
                     HANDSHAKE_COMPLETE version name token \<Rightarrow>
                       (let s3 = emit (Log (''Connected to '' @ name)) s2;
                            s4 = s3\<lparr>pushNotificationSubscriptionToken := token\<rparr>;
                            s5 = s4\<lparr>computerName := name\<rparr>;
                            s6 = s5\<lparr>computerVersion := version\<rparr>;
                            s7 = emit (SaveComputerName (computerName s6)) s6
                        in populate (observers s7) s7)
                   | _ \<Rightarrow> (None, s2))))"

text \<open>\<open>close()\<close>.\<close>

definition close :: "'h Socket \<Rightarrow> 'h Socket" where
  "close s =
     (case socket s of
        None \<Rightarrow> s
      | Some rs \<Rightarrow>
          (let rs1 = rs\<lparr>onopen := None\<rparr>;
               rs2 = rs1\<lparr>onmessage := None\<rparr>;
               rs3 = rs2\<lparr>onclose := None\<rparr>;
               s1 = emit (SocketClose rs3) (s\<lparr>socket := Some rs3\<rparr>);
               s2 = s1\<lparr>socket := None\<rparr>;
               s3 = s2\<lparr>connecting := False\<rparr>
           in s3\<lparr>connected := False\<rparr>))"

text \<open>
  \<open>connect(code)\<close>. \<open>ctor_error\<close> is \<open>Some message\<close> when \<open>new RiftSocket(code)\<close> throws an
  error with that message.
\<close>

definition connect :: "string option \<Rightarrow> string \<Rightarrow> 'h Socket \<Rightarrow> 'h Socket" where
  "connect ctor_error c s =
     (let s1 = s\<lparr>connecting := True\<rparr>;
          s2 = s1\<lparr>code := c\<rparr>
      in case ctor_error of
           Some message \<Rightarrow> emit (Log message) (emit (Log ''[-] Error during connect:'') s2)
         | None \<Rightarrow>
             s2\<lparr>socket :=
                  Some ((RiftSocket_new c)
                          \<lparr>onopen := Some OnOpen, onmessage := Some HandleWebsocketMessage,
                           onclose := Some OnClose\<rparr>)\<rparr>)"

text \<open>The closure assigned to \<open>onopen\<close> (lines 210 to 214).\<close>

definition connect_onopen :: "'h Socket \<Rightarrow> exn option \<times> 'h Socket" where
  "connect_onopen s = socket_send HANDSHAKE (s\<lparr>connected := True, connecting := False\<rparr>)"

text \<open>The closure assigned to \<open>onclose\<close> (lines 218 to 226); \<open>reason\<close> is \<open>ev.reason\<close>.\<close>

definition connect_onclose :: "string \<Rightarrow> 'h Socket \<Rightarrow> 'h Socket" where
  "connect_onclose reason s =
     (if connecting s then emit (Log (''Closed unexpectedly ('' @ reason @ '')'')) s
      else emit (Log ''Connection to host closed.'') (s\<lparr>connected := False\<rparr>))"

text \<open>\<open>tryReconnect()\<close>.\<close>

definition tryReconnect :: "string option \<Rightarrow> 'h Socket \<Rightarrow> 'h Socket" where
  "tryReconnect ctor_error s = connect ctor_error (code s) s"

subsection \<open>The operations of a session, one at a time\<close>

text \<open>
  The public methods and the three transport events. An exception ends the operation; what
  it did until then stays.
\<close>

datatype 'h operation =
    Observe Matcher 'h
  | Unobserve string
  | Request string "string option" "string option"
  | Message string
  | Close
  | Connect "string option" string
  | TryReconnect "string option"
  | OpenEvent
  | CloseEvent string

definition perform ::
  "(string \<Rightarrow> WebsocketMessage option) \<Rightarrow> 'h operation \<Rightarrow> 'h Socket \<Rightarrow> 'h Socket" where
  "perform JSON_parse op s =
     (case op of
        Observe m h \<Rightarrow> snd (observe m h s)
      | Unobserve p \<Rightarrow> unobserve p s
      | Request p m b \<Rightarrow> snd (request p m b s)
      | Message d \<Rightarrow> snd (handleWebsocketMessage JSON_parse d s)
      | Close \<Rightarrow> close s
      | Connect e c \<Rightarrow> connect e c s
      | TryReconnect e \<Rightarrow> tryReconnect e s
      | OpenEvent \<Rightarrow> snd (connect_onopen s)
      | CloseEvent reason \<Rightarrow> connect_onclose reason s)"


text \<open>
  The invariant of the pending requests: every outstanding id was handed out already, so
  the next id is not among them.
\<close>

definition pending_below_counter :: "'h Socket \<Rightarrow> bool" where
  "pending_below_counter s = (\<forall>i \<in> dom (requests s). i < int (idCounter s))"

text \<open>
  From \<open>s\<close> to \<open>s'\<close> the counter did not go down, and if it is still below \<open>2^53\<close>, an id
  outstanding in \<open>s'\<close> was outstanding in \<open>s\<close> or was handed out in between.
\<close>

definition allocates :: "'h Socket \<Rightarrow> 'h Socket \<Rightarrow> bool" where
  "allocates s s' =
     (idCounter s \<le> idCounter s' \<and>
      (idCounter s' < 2 ^ 53 \<longrightarrow>
       (\<forall>i \<in> dom (requests s').
          i \<in> dom (requests s) \<or> (int (idCounter s) \<le> i \<and> i < int (idCounter s')))))"

subsection \<open>The replay after a handshake, in the words of the specification\<close>

text \<open>
  The frames of the replay, with \<open>i\<close> the next request id: for each observer, in order of
  registration, a \<open>SUBSCRIBE\<close> naming the path or the pattern's source, and after it, for
  an exact path, a \<open>REQUEST\<close> for that path with the method \<open>GET\<close> and no body.
\<close>

fun replay_frames_spec :: "(nat \<Rightarrow> RegExp) \<Rightarrow> nat \<Rightarrow> 'h Observer list \<Rightarrow> frame list" where
  "replay_frames_spec rx i [] = []"
| "replay_frames_spec rx i (x # xs) =
     (case matcher x of
        Path p \<Rightarrow>
          SUBSCRIBE p # REQUEST (int i) p ''GET'' None # replay_frames_spec rx (i + 1) xs
      | Pattern a \<Rightarrow> SUBSCRIBE (source (rx a)) # replay_frames_spec rx i xs)"

text \<open>The bootstrap requests of the replay: id, path, and the handler that gets the result.\<close>

fun replay_requests_spec :: "nat \<Rightarrow> 'h Observer list \<Rightarrow> (nat \<times> string \<times> 'h) list" where
  "replay_requests_spec i [] = []"
| "replay_requests_spec i (x # xs) =
     (case matcher x of
        Path p \<Rightarrow> (i, p, handler x) # replay_requests_spec (i + 1) xs
      | Pattern r \<Rightarrow> replay_requests_spec i xs)"

text \<open>The pending requests that the replay adds.\<close>

definition replay_pending_spec :: "nat \<Rightarrow> 'h Observer list \<Rightarrow> (int \<rightharpoonup> 'h Resolve)" where
  "replay_pending_spec i xs =
     map_of (map (\<lambda>(j, p, h). (int j, Resolve (Some h))) (replay_requests_spec i xs))"

subsection \<open>The frames of \<open>unobserve\<close>, in the words of the specification\<close>

text \<open>
  If the session is connected, one \<open>UNSUBSCRIBE\<close> for each distinct matcher among the
  removed observers.
\<close>

definition unsubscribe_frames_spec :: "string \<Rightarrow> 'h Socket \<Rightarrow> frame list" where
  "unsubscribe_frames_spec path s =
     (if connected s
      then map (\<lambda>m. UNSUBSCRIBE path)
             (remdups (map matcher (filter (\<lambda>x. matcher x = Path path) (observers s))))
      else [])"

subsection \<open>Sessions used as concrete inputs\<close>

text \<open>
  Three observers, not connected: two exact paths and one pattern that accepts the texts
  starting with \<open>/a\<close>.
\<close>

definition RegExp_a :: RegExp where
  "RegExp_a =
     \<lparr>source = ''^/a'', sticky_or_global = False, lastIndex = 0,
      exec_from = (\<lambda>i t. if i = 0 \<and> take 2 t = ''/a'' then Some 2 else None)\<rparr>"

definition session_ab :: "string Socket" where
  "session_ab =
     Socket_new\<lparr>observers :=
       [\<lparr>matcher = Path ''/a'', handler = ''h1''\<rparr>,
        \<lparr>matcher = Path ''/b'', handler = ''h2''\<rparr>,
        \<lparr>matcher = Pattern 0, handler = ''h3''\<rparr>],
       regexps := (\<lambda>a. RegExp_a)\<rparr>"

text \<open>
  A connected session on an open transport with two outstanding requests: request 0 was
  made by an outside caller, request 1 has the handler \<open>h1\<close> chained on its promise.
\<close>

definition session_live :: "string Socket" where
  "session_live =
     Socket_new\<lparr>connected := True, idCounter := 2,
       socket := Some ((RiftSocket_new ''ABC123'')\<lparr>readyState := OPEN\<rparr>),
       requests := [0 \<mapsto> Resolve None, 1 \<mapsto> Resolve (Some ''h1'')]\<rparr>"

text \<open>The transport changes its \<open>readyState\<close> on its own.\<close>

definition transport_ready :: "ReadyState \<Rightarrow> 'h Socket \<Rightarrow> 'h Socket" where
  "transport_ready r s = s\<lparr>socket := map_option (\<lambda>rs. rs\<lparr>readyState := r\<rparr>) (socket s)\<rparr>"

text \<open>
  The same path observed twice while disconnected, then \<open>connect\<close>; the transport has
  opened and its open event has been handled.
\<close>

definition session_twice :: "string Socket" where
  "session_twice =
     snd (connect_onopen (transport_ready OPEN (connect None ''ABC123''
       (snd (observe (Path ''/a'') ''h2'' (snd (observe (Path ''/a'') ''h1'' Socket_new)))))))"

text \<open>
  A path observed while disconnected, a first transport opened, then a second \<open>connect\<close>:
  the session is still connected, and the transport it holds now is not open yet.
\<close>

definition session_reconnecting :: "string Socket" where
  "session_reconnecting =
     connect None ''XYZ789''
       (snd (connect_onopen (transport_ready OPEN (connect None ''ABC123''
          (snd (observe (Path ''/a'') ''h1'' Socket_new))))))"

text \<open>
  A path observed while disconnected, then \<open>connect\<close>, then the open event (a scenario of
  section 8 of the specification).
\<close>

definition session_replay :: "string Socket" where
  "session_replay =
     snd (connect_onopen (connect None ''ABC123''
       (snd (observe (Path ''/lol-gameflow/v1/session'') ''h'' Socket_new))))"

text \<open>Two observers of the same path; the handler of the first one throws.\<close>

definition session_throwing :: "string Socket" where
  "session_throwing =
     Socket_new\<lparr>observers :=
       [\<lparr>matcher = Path ''/a'', handler = ''bad''\<rparr>,
        \<lparr>matcher = Path ''/a'', handler = ''h2''\<rparr>],
       throws := (\<lambda>h r. if h = ''bad'' then Some (Error ''boom'') else None)\<rparr>"

text \<open>
  Two paths observed while disconnected; a first transport is connected and opens, a
  second one is connected and opens, and then the close event of the first one arrives.
\<close>

definition session_stale :: "string Socket" where
  "session_stale =
     connect_onclose ''gone''
       (snd (connect_onopen (connect None ''XYZ789''
          (snd (connect_onopen (connect None ''ABC123''
             (snd (observe (Path ''/b'') ''h2''
                (snd (observe (Path ''/a'') ''h1'' Socket_new))))))))))"

text \<open>A connected session on an open transport whose id counter has reached \<open>2^53\<close>.\<close>

definition session_full :: "string Socket" where
  "session_full =
     Socket_new\<lparr>connected := True, idCounter := 2 ^ 53,
       socket := Some ((RiftSocket_new ''ABC123'')\<lparr>readyState := OPEN\<rparr>),
       observers :=
         [\<lparr>matcher = Path ''/a'', handler = ''h1''\<rparr>,
          \<lparr>matcher = Path ''/b'', handler = ''h2''\<rparr>]\<rparr>"



section \<open>Properties\<close>

subsection \<open>Counting, and what does not touch the handlers\<close>

lemma number_succ_exact: "n < 2 ^ 53 \<Longrightarrow> number_succ n = n + 1"
  by (simp add: number_succ_def)

lemma number_succ_mono: "n \<le> number_succ n"
  by (simp add: number_succ_def)

lemma number_succ_below: "number_succ n < 2 ^ 53 \<Longrightarrow> number_succ n = n + 1"
  by (simp add: number_succ_def split: if_splits)

lemma throws_emit [simp]: "throws (emit e s) = throws s"
  by (simp add: emit_def)

subsection \<open>Dispatch of an update\<close>

lemma call_handlers_return:
  "\<forall>x \<in> set xs. throws s (handler x) r = None \<Longrightarrow>
   call_handlers r xs s = (None, s\<lparr>effects := effects s @ map (\<lambda>x. Call (handler x) r) xs\<rparr>)"
proof (induction xs arbitrary: s)
  case Nil
  show ?case by simp
next
  case (Cons x xs)
  from Cons.prems have a: "throws s (handler x) r = None"
    and b: "\<forall>y \<in> set xs. throws (emit (Call (handler x) r) s) (handler y) r = None"
    by simp_all
  from Cons.IH [OF b] a show ?case by (simp add: emit_def)
qed

lemma call_handlers_throw:
  "\<forall>x \<in> set xs. throws s (handler x) r = None \<Longrightarrow> throws s (handler y) r = Some e \<Longrightarrow>
   call_handlers r (xs @ y # ys) s =
     (Some e, s\<lparr>effects := effects s @ map (\<lambda>x. Call (handler x) r) (xs @ [y])\<rparr>)"
proof (induction xs arbitrary: s)
  case Nil
  then show ?case by (simp add: emit_def)
next
  case (Cons x xs)
  from Cons.prems have a: "throws s (handler x) r = None"
    and b: "\<forall>z \<in> set xs. throws (emit (Call (handler x) r) s) (handler z) r = None"
    and c: "throws (emit (Call (handler x) r) s) (handler y) r = Some e"
    by simp_all
  from Cons.IH [OF b c] a show ?case by (simp add: emit_def)
qed

lemma update_filter_subseq: "update_filter path xs rx = (kept, rx') \<Longrightarrow> subseq kept xs"
proof (induction xs arbitrary: rx kept rx')
  case Nil
  then show ?case by simp
next
  case (Cons x xs)
  show ?case
  proof (cases "matcher x")
    case (Path p)
    obtain k r1 where u: "update_filter path xs rx = (k, r1)"
      by (cases "update_filter path xs rx") auto
    from Cons.IH [OF u] have "subseq k xs" .
    with Cons.prems Path u show ?thesis by (auto split: if_splits)
  next
    case (Pattern a)
    obtain b r1 where t: "RegExp_test (rx a) path = (b, r1)"
      by (cases "RegExp_test (rx a) path") auto
    obtain k r2 where u: "update_filter path xs (rx(a := r1)) = (k, r2)"
      by (cases "update_filter path xs (rx(a := r1))") auto
    from Cons.IH [OF u] have "subseq k xs" .
    with Cons.prems Pattern t u show ?thesis by (auto split: if_splits)
  qed
qed

lemma update_filter_paths:
  "update_filter path xs rx = (kept, rx') \<Longrightarrow>
   filter (\<lambda>x. case matcher x of Path p \<Rightarrow> True | Pattern a \<Rightarrow> False) kept =
     filter (\<lambda>x. matcher x = Path path) xs"
proof (induction xs arbitrary: rx kept rx')
  case Nil
  then show ?case by simp
next
  case (Cons x xs)
  show ?case
  proof (cases "matcher x")
    case (Path p)
    obtain k r1 where u: "update_filter path xs rx = (k, r1)"
      by (cases "update_filter path xs rx") auto
    from Cons.IH [OF u] Cons.prems Path u show ?thesis by (auto split: if_splits)
  next
    case (Pattern a)
    obtain b r1 where t: "RegExp_test (rx a) path = (b, r1)"
      by (cases "RegExp_test (rx a) path") auto
    obtain k r2 where u: "update_filter path xs (rx(a := r1)) = (k, r2)"
      by (cases "update_filter path xs (rx(a := r1))") auto
    from Cons.IH [OF u] Cons.prems Pattern t u show ?thesis by (auto split: if_splits)
  qed
qed

lemma update_filter_plain:
  "\<forall>x \<in> set xs. \<forall>a. matcher x = Pattern a \<longrightarrow> \<not> sticky_or_global (rx a) \<Longrightarrow>
   update_filter path xs rx =
     (filter (\<lambda>x. case matcher x of
                     Path p \<Rightarrow> p = path
                   | Pattern a \<Rightarrow> exec_from (rx a) 0 path \<noteq> None) xs,
      rx)"
proof (induction xs)
  case Nil
  show ?case by simp
next
  case (Cons x xs)
  then have ih: "update_filter path xs rx =
     (filter (\<lambda>x. case matcher x of
                     Path p \<Rightarrow> p = path
                   | Pattern a \<Rightarrow> exec_from (rx a) 0 path \<noteq> None) xs, rx)"
    by simp
  show ?case
  proof (cases "matcher x")
    case (Path p)
    with ih show ?thesis by auto
  next
    case (Pattern a)
    with Cons.prems have "\<not> sticky_or_global (rx a)" by simp
    then have t: "RegExp_test (rx a) path = (exec_from (rx a) 0 path \<noteq> None, rx a)"
      by (simp add: RegExp_test_def)
    have u: "rx(a := rx a) = rx" by simp
    from Pattern ih t u show ?thesis by simp
  qed
qed

text \<open>
  C1, as stated, fails when a handler throws: of two observers of \<open>/a\<close> whose first handler
  throws, the second one matches the update and is not called, and the exception leaves
  the router.
\<close>

theorem update_frame_dispatch_counterexample:
  "update_filter ''/a'' (observers session_throwing) (regexps session_throwing) =
     (observers session_throwing, regexps session_throwing) \<and>
   map handler (observers session_throwing) = [''bad'', ''h2''] \<and>
   handleWebsocketMessage (\<lambda>t. Some (UPDATE ''/a'' 200 JNull)) ''[upd]'' session_throwing =
     (Some (Error ''boom''),
      session_throwing\<lparr>effects := [Call ''bad'' \<lparr>status = 200, content = JNull\<rparr>]\<rparr>)"
  by (simp add: handleWebsocketMessage_def session_throwing_def Socket_new_def emit_def)

text \<open>
  C1, amended. On an \<open>UPDATE\<close> frame for \<open>path\<close> with \<open>status\<close> and \<open>content\<close>, the router tests
  every registered observer in the order of registration: a string matcher passes when
  it equals \<open>path\<close>, a pattern when its \<open>test\<close> accepts \<open>path\<close> at that call (for a pattern
  without the flags \<open>g\<close> and \<open>y\<close>: when it matches \<open>path\<close>). It then calls the handlers of the
  observers that passed, in the order of registration, each with \<open>{status, content}\<close>, and
  no other handler, as long as each called handler returns. A handler that throws ends
  the dispatch: the exception leaves the router and the handlers after it are not called.
\<close>

theorem update_frame_dispatch:
  "JSON_parse d = Some (UPDATE path st c) \<Longrightarrow>
   update_filter path (observers s) (regexps s) = (kept, rx) \<Longrightarrow>
   ((\<forall>x \<in> set kept. throws s (handler x) \<lparr>status = st, content = c\<rparr> = None) \<longrightarrow>
      handleWebsocketMessage JSON_parse d s =
        (None,
         s\<lparr>regexps := rx,
           effects := effects s @
             map (\<lambda>x. Call (handler x) \<lparr>status = st, content = c\<rparr>) kept\<rparr>)) \<and>
   (\<forall>xs y ys e.
      kept = xs @ y # ys \<and>
      (\<forall>x \<in> set xs. throws s (handler x) \<lparr>status = st, content = c\<rparr> = None) \<and>
      throws s (handler y) \<lparr>status = st, content = c\<rparr> = Some e \<longrightarrow>
      handleWebsocketMessage JSON_parse d s =
        (Some e,
         s\<lparr>regexps := rx,
           effects := effects s @
             map (\<lambda>x. Call (handler x) \<lparr>status = st, content = c\<rparr>) (xs @ [y])\<rparr>)) \<and>
   subseq kept (observers s) \<and>
   filter (\<lambda>x. case matcher x of Path p \<Rightarrow> True | Pattern a \<Rightarrow> False) kept =
     filter (\<lambda>x. matcher x = Path path) (observers s) \<and>
   ((\<forall>x \<in> set (observers s). \<forall>a. matcher x = Pattern a \<longrightarrow> \<not> sticky_or_global (regexps s a)) \<longrightarrow>
      rx = regexps s \<and>
      kept = filter (\<lambda>x. case matcher x of
                           Path p \<Rightarrow> p = path
                         | Pattern a \<Rightarrow> exec_from (regexps s a) 0 path \<noteq> None) (observers s))"
proof -
  assume p: "JSON_parse d = Some (UPDATE path st c)"
    and f: "update_filter path (observers s) (regexps s) = (kept, rx)"
  let ?r = "\<lparr>status = st, content = c\<rparr>"
  let ?t = "s\<lparr>regexps := rx\<rparr>"
  have h: "handleWebsocketMessage JSON_parse d s =
             (case call_handlers ?r kept ?t of (Some e, s1) \<Rightarrow> (Some e, s1) | (None, s1) \<Rightarrow> (None, s1))"
    by (simp add: handleWebsocketMessage_def p f split: prod.splits option.splits)
  have first: "handleWebsocketMessage JSON_parse d s =
        (None, s\<lparr>regexps := rx, effects := effects s @ map (\<lambda>x. Call (handler x) ?r) kept\<rparr>)"
    if n: "\<forall>x \<in> set kept. throws s (handler x) ?r = None"
  proof -
    from n have "\<forall>x \<in> set kept. throws ?t (handler x) ?r = None" by simp
    from call_handlers_return [OF this] show ?thesis unfolding h by simp
  qed
  have second: "handleWebsocketMessage JSON_parse d s =
        (Some e, s\<lparr>regexps := rx, effects := effects s @ map (\<lambda>x. Call (handler x) ?r) (xs @ [y])\<rparr>)"
    if k: "kept = xs @ y # ys" and n: "\<forall>x \<in> set xs. throws s (handler x) ?r = None"
      and t: "throws s (handler y) ?r = Some e" for xs y ys e
  proof -
    from n have n': "\<forall>x \<in> set xs. throws ?t (handler x) ?r = None" by simp
    from t have t': "throws ?t (handler y) ?r = Some e" by simp
    from call_handlers_throw [OF n' t', of ys] show ?thesis unfolding h k by simp
  qed
  have third: "subseq kept (observers s)"
    by (rule update_filter_subseq [OF f])
  have fourth: "filter (\<lambda>x. case matcher x of Path p \<Rightarrow> True | Pattern a \<Rightarrow> False) kept =
     filter (\<lambda>x. matcher x = Path path) (observers s)"
    by (rule update_filter_paths [OF f])
  have fifth: "rx = regexps s \<and>
      kept = filter (\<lambda>x. case matcher x of
                           Path p \<Rightarrow> p = path
                         | Pattern a \<Rightarrow> exec_from (regexps s a) 0 path \<noteq> None) (observers s)"
    if plain: "\<forall>x \<in> set (observers s). \<forall>a. matcher x = Pattern a \<longrightarrow> \<not> sticky_or_global (regexps s a)"
    using update_filter_plain [OF plain, of path] f by simp
  from first second third fourth fifth show ?thesis by blast
qed

theorem update_frame_dispatch_witness:
  "handleWebsocketMessage (\<lambda>t. Some (UPDATE ''/a'' 200 JNull)) ''[upd]'' session_ab =
     (None,
      session_ab\<lparr>effects :=
        [Call ''h1'' \<lparr>status = 200, content = JNull\<rparr>,
         Call ''h3'' \<lparr>status = 200, content = JNull\<rparr>]\<rparr>) \<and>
   handleWebsocketMessage (\<lambda>t. Some (UPDATE ''/a'' 200 JNull)) ''[upd]'' session_throwing =
     (Some (Error ''boom''),
      session_throwing\<lparr>effects := [Call ''bad'' \<lparr>status = 200, content = JNull\<rparr>]\<rparr>)"
proof -
  let ?kept = "[\<lparr>matcher = Path ''/a'', handler = ''h1''\<rparr>,
               \<lparr>matcher = Pattern 0, handler = ''h3''\<rparr>] :: string Observer list"
  have f: "update_filter ''/a'' (observers session_ab) (regexps session_ab) =
             (?kept, regexps session_ab)"
    using update_filter_plain [of "observers session_ab" "regexps session_ab" "''/a''"]
    by (simp add: session_ab_def Socket_new_def RegExp_a_def)
  have n: "\<forall>x \<in> set ?kept. throws session_ab (handler x) \<lparr>status = 200, content = JNull\<rparr> = None"
    by (simp add: session_ab_def Socket_new_def)
  from n update_frame_dispatch
    [of "\<lambda>t. Some (UPDATE ''/a'' 200 JNull)" "''[upd]''" "''/a''" 200 JNull session_ab
      ?kept "regexps session_ab", OF refl f]
  have a: "handleWebsocketMessage (\<lambda>t. Some (UPDATE ''/a'' 200 JNull)) ''[upd]'' session_ab =
     (None,
      session_ab\<lparr>regexps := regexps session_ab,
        effects := effects session_ab @
          map (\<lambda>x. Call (handler x) \<lparr>status = 200, content = JNull\<rparr>) ?kept\<rparr>)"
    by blast
  let ?bad = "\<lparr>matcher = Path ''/a'', handler = ''bad''\<rparr> :: string Observer"
  let ?h2 = "\<lparr>matcher = Path ''/a'', handler = ''h2''\<rparr> :: string Observer"
  have g: "update_filter ''/a'' (observers session_throwing) (regexps session_throwing) =
             ([] @ ?bad # [?h2], regexps session_throwing)"
    by (simp add: session_throwing_def Socket_new_def)
  have t: "throws session_throwing (handler ?bad) \<lparr>status = 200, content = JNull\<rparr> =
             Some (Error ''boom'')"
    by (simp add: session_throwing_def Socket_new_def)
  from t update_frame_dispatch
    [of "\<lambda>t. Some (UPDATE ''/a'' 200 JNull)" "''[upd]''" "''/a''" 200 JNull session_throwing
      "[] @ ?bad # [?h2]" "regexps session_throwing", OF refl g]
  have b: "handleWebsocketMessage (\<lambda>t. Some (UPDATE ''/a'' 200 JNull)) ''[upd]''
             session_throwing =
     (Some (Error ''boom''),
      session_throwing\<lparr>regexps := regexps session_throwing,
        effects := effects session_throwing @
          map (\<lambda>x. Call (handler x) \<lparr>status = 200, content = JNull\<rparr>) ([] @ [?bad])\<rparr>)"
    by (elim conjE allE [where x = "[]"]) auto
  from a b show ?thesis
    by (simp add: session_ab_def session_throwing_def Socket_new_def)
qed

subsection \<open>Completion of a request\<close>

text \<open>
  C2. On a \<open>RESPONSE\<close> frame with id \<open>i\<close>: if no request is outstanding under \<open>i\<close>, the frame
  changes nothing and nothing is thrown; if one is outstanding, its completion is called
  once with \<open>{status, content}\<close> (the promise is resolved, and the handler chained on it,
  if any, runs with the same result) and the entry is removed from the pending requests.
\<close>

theorem response_frame:
  "JSON_parse d = Some (RESPONSE i st c) \<Longrightarrow>
   (requests s i = None \<longrightarrow> handleWebsocketMessage JSON_parse d s = (None, s)) \<and>
   (\<forall>k. requests s i = Some (Resolve k) \<longrightarrow>
      handleWebsocketMessage JSON_parse d s =
        (None,
         s\<lparr>requests := (requests s)(i := None),
           effects := effects s @
             Resolved i \<lparr>status = st, content = c\<rparr> #
             (case k of None \<Rightarrow> [] | Some h \<Rightarrow> [Call h \<lparr>status = st, content = c\<rparr>])\<rparr>))"
  by (auto simp: handleWebsocketMessage_def resolve_request_def emit_def split: option.splits)

theorem response_frame_witness:
  "handleWebsocketMessage (\<lambda>t. Some (RESPONSE 7 200 JNull)) ''[r7]'' session_live =
     (None, session_live) \<and>
   handleWebsocketMessage (\<lambda>t. Some (RESPONSE 1 200 (JStr ''x''))) ''[r1]'' session_live =
     (None,
      session_live\<lparr>requests := [0 \<mapsto> Resolve None],
        effects := [Resolved 1 \<lparr>status = 200, content = JStr ''x''\<rparr>,
                    Call ''h1'' \<lparr>status = 200, content = JStr ''x''\<rparr>]\<rparr>)"
proof -
  have a: "requests session_live 7 = None"
    by (simp add: session_live_def Socket_new_def)
  have b: "requests session_live 1 = Some (Resolve (Some ''h1''))"
    by (simp add: session_live_def Socket_new_def)
  have c: "(requests session_live)(1 := None) = [0 \<mapsto> Resolve None]"
    by (simp add: session_live_def Socket_new_def)
  have e: "effects session_live = []"
    by (simp add: session_live_def Socket_new_def)
  from a b c e
    response_frame [of "\<lambda>t. Some (RESPONSE 7 200 JNull)" "''[r7]''" 7 200 JNull session_live]
    response_frame [of "\<lambda>t. Some (RESPONSE 1 200 (JStr ''x''))" "''[r1]''" 1 200 "JStr ''x''"
      session_live]
  show ?thesis by simp
qed

subsection \<open>A request while not connected\<close>

text \<open>
  C3. For every path, method and body, \<open>request\<close> on a session that is not connected throws
  \<open>Error("Not connected.")\<close> to its caller, not through a promise; the session is left as it
  was, so no frame is sent and no pending request is recorded.
\<close>

theorem request_not_connected:
  "\<not> connected s \<Longrightarrow> request path meth body s = (Inl (Error ''Not connected.''), s)"
  by (simp add: request_def)

theorem request_not_connected_witness:
  "\<not> connected (Socket_new :: string Socket) \<and>
   request ''/x'' (Some ''POST'') (Some ''{}'') (Socket_new :: string Socket) =
     (Inl (Error ''Not connected.''), Socket_new)"
  using request_not_connected
    [of "Socket_new :: string Socket" "''/x''" "Some ''POST''" "Some ''{}''"]
  by (simp add: Socket_new_def)

subsection \<open>The replay after a handshake\<close>

lemma replay_requests_ids: "(j, p, h) \<in> set (replay_requests_spec i xs) \<Longrightarrow> i \<le> j"
proof (induction xs arbitrary: i)
  case Nil
  then show ?case by simp
next
  case (Cons x xs)
  then show ?case by (cases "matcher x") force+
qed

lemma replay_requests_distinct: "distinct (map fst (replay_requests_spec i xs))"
proof (induction xs arbitrary: i)
  case Nil
  show ?case by simp
next
  case (Cons x xs)
  show ?case
  proof (cases "matcher x")
    case (Path p)
    have "i \<notin> fst ` set (replay_requests_spec (i + 1) xs)"
      using replay_requests_ids [of i _ _ "i + 1" xs] by force
    with Cons.IH [of "i + 1"] Path show ?thesis by simp
  next
    case (Pattern r)
    with Cons.IH [of i] show ?thesis by simp
  qed
qed

lemma replay_pending_above: "j < i \<Longrightarrow> replay_pending_spec i xs (int j) = None"
proof -
  assume "j < i"
  then have "j \<notin> fst ` set (replay_requests_spec i xs)"
    using replay_requests_ids [of j _ _ i xs] by force
  then have "int j \<notin> fst ` set (map (\<lambda>(j, p, h). (int j, Resolve (Some h)))
                                    (replay_requests_spec i xs))"
    by force
  then show ?thesis
    unfolding replay_pending_spec_def map_of_eq_None_iff .
qed

lemma replay_pending_Path:
  "matcher x = Path p \<Longrightarrow>
   m ++ replay_pending_spec i (x # xs) =
     (m(int i \<mapsto> Resolve (Some (handler x)))) ++ replay_pending_spec (i + 1) xs"
proof -
  assume mx: "matcher x = Path p"
  have n: "replay_pending_spec (i + 1) xs (int i) = None" by (rule replay_pending_above) simp
  have "replay_pending_spec i (x # xs) =
          (replay_pending_spec (i + 1) xs)(int i \<mapsto> Resolve (Some (handler x)))"
    using mx by (simp add: replay_pending_spec_def)
  then have "m ++ replay_pending_spec i (x # xs) =
             (m ++ replay_pending_spec (i + 1) xs)(int i \<mapsto> Resolve (Some (handler x)))"
    by simp
  also have "\<dots> = (m(int i \<mapsto> Resolve (Some (handler x)))) ++ replay_pending_spec (i + 1) xs"
    using n by (auto simp: map_add_def fun_upd_def split: option.splits)
  finally show ?thesis .
qed

lemma replay_pending_Pattern:
  "matcher x = Pattern r \<Longrightarrow> replay_pending_spec i (x # xs) = replay_pending_spec i xs"
  by (simp add: replay_pending_spec_def)

lemma replay_pending_routes:
  "(j, p, h) \<in> set (replay_requests_spec i xs) \<Longrightarrow>
   (m ++ replay_pending_spec i xs) (int j) = Some (Resolve (Some h))"
proof -
  assume a: "(j, p, h) \<in> set (replay_requests_spec i xs)"
  let ?kvs = "map (\<lambda>(j, p, h). (int j, Resolve (Some h))) (replay_requests_spec i xs)"
  have "map fst ?kvs = map int (map fst (replay_requests_spec i xs))"
    by (simp add: comp_def case_prod_unfold)
  then have d: "distinct (map fst ?kvs)"
    using replay_requests_distinct [of i xs] by (simp add: distinct_map inj_on_def)
  from a have "(int j, Resolve (Some h)) \<in> set ?kvs" by force
  with d have "map_of ?kvs (int j) = Some (Resolve (Some h))" by simp
  then show ?thesis by (simp add: replay_pending_spec_def map_add_def)
qed

lemma request_then_connected:
  "connected s \<Longrightarrow> socket s = Some rs \<Longrightarrow>
   request_then p h s =
     (None,
      s\<lparr>idCounter := number_succ (idCounter s),
        socket := Some (rs\<lparr>sent := sent rs @ [REQUEST (int (idCounter s)) p ''GET'' None]\<rparr>),
        requests := (requests s)(int (idCounter s) \<mapsto> Resolve (Some h))\<rparr>)"
  by (simp add: request_then_def request_def socket_send_def promise_then_def Let_def)

lemma populate_connected:
  "connected s \<Longrightarrow> socket s = Some rs \<Longrightarrow>
   idCounter s + length (replay_requests_spec (idCounter s) xs) \<le> 2 ^ 53 \<Longrightarrow>
   populate xs s =
     (None,
      s\<lparr>idCounter := idCounter s + length (replay_requests_spec (idCounter s) xs),
        socket := Some (rs\<lparr>sent := sent rs @ replay_frames_spec (regexps s) (idCounter s) xs\<rparr>),
        requests := requests s ++ replay_pending_spec (idCounter s) xs\<rparr>)"
proof (induction xs arbitrary: s rs)
  case Nil
  then show ?case by (simp add: replay_pending_spec_def)
next
  case (Cons x xs)
  let ?t = "matcher_text (regexps s) (matcher x)"
  let ?rs1 = "rs\<lparr>sent := sent rs @ [SUBSCRIBE ?t]\<rparr>"
  let ?s1 = "s\<lparr>socket := Some ?rs1\<rparr>"
  have send: "socket_send (SUBSCRIBE ?t) s = (None, ?s1)"
    using Cons.prems by (simp add: socket_send_def)
  show ?case
  proof (cases "matcher x")
    case (Pattern r)
    have c: "connected ?s1" "socket ?s1 = Some ?rs1"
      "idCounter ?s1 + length (replay_requests_spec (idCounter ?s1) xs) \<le> 2 ^ 53"
      using Cons.prems Pattern by simp_all
    from Cons.IH [OF c] send Pattern show ?thesis
      by (simp add: matcher_text_def replay_pending_Pattern)
  next
    case (Path p)
    from Cons.prems(3) Path have below: "idCounter s < 2 ^ 53" by simp
    let ?rs2 = "?rs1\<lparr>sent := sent ?rs1 @ [REQUEST (int (idCounter s)) p ''GET'' None]\<rparr>"
    let ?s2 = "?s1\<lparr>idCounter := idCounter s + 1, socket := Some ?rs2,
                  requests := (requests s)(int (idCounter s) \<mapsto> Resolve (Some (handler x)))\<rparr>"
    have c1: "connected ?s1" "socket ?s1 = Some ?rs1" using Cons.prems by simp_all
    have req: "request_then p (handler x) ?s1 = (None, ?s2)"
      using request_then_connected [OF c1, of p "handler x"] number_succ_exact [OF below]
      by simp
    have c2: "connected ?s2" "socket ?s2 = Some ?rs2"
      "idCounter ?s2 + length (replay_requests_spec (idCounter ?s2) xs) \<le> 2 ^ 53"
      using Cons.prems Path by simp_all
    have step: "populate (x # xs) s = populate xs ?s2"
      using send Path req by simp
    show ?thesis
      unfolding step Cons.IH [OF c2]
      using Path replay_pending_Path [OF Path, of "requests s" "idCounter s" xs]
      by (simp add: matcher_text_def)
  qed
qed

lemma replay_frames_subscribes:
  "[t. SUBSCRIBE t \<leftarrow> replay_frames_spec rx i xs] = map (\<lambda>x. matcher_text rx (matcher x)) xs"
  by (induction xs arbitrary: i) (auto simp: matcher_text_def split: Matcher.splits)

lemma replay_frames_requests:
  "[(j, p, m, b). REQUEST j p m b \<leftarrow> replay_frames_spec rx i xs] =
     map (\<lambda>(j, p, h). (int j, p, ''GET'', None)) (replay_requests_spec i xs)"
  by (induction xs arbitrary: i) (auto split: Matcher.splits)

lemma replay_requests_observers:
  "map snd (replay_requests_spec i xs) = [(p, handler x). x \<leftarrow> xs, Path p \<leftarrow> [matcher x]]"
  by (induction xs arbitrary: i) (auto split: Matcher.splits)

text \<open>
  Without the connection the replay does not get through: on a session that is not
  connected the bootstrap request of the first exact path throws, and on a session
  without a transport the first \<open>SUBSCRIBE\<close> does.
\<close>

lemma populate_not_connected:
  "\<not> connected s \<Longrightarrow> socket s = Some rs \<Longrightarrow> matcher x = Path p \<Longrightarrow>
   populate (x # xs) s =
     (Some (Error ''Not connected.''), s\<lparr>socket := Some (rs\<lparr>sent := sent rs @ [SUBSCRIBE p]\<rparr>)\<rparr>)"
  by (simp add: socket_send_def request_then_def request_def matcher_text_def)

lemma populate_no_socket:
  "socket s = None \<Longrightarrow> populate (x # xs) s = (Some TypeError, s)"
  by (simp add: socket_send_def)

lemma session_stale_eq:
  "session_stale =
     Socket_new\<lparr>code := ''XYZ789'',
       socket := Some ((RiftSocket_new ''XYZ789'')
          \<lparr>onopen := Some OnOpen, onmessage := Some HandleWebsocketMessage,
           onclose := Some OnClose, sent := [HANDSHAKE]\<rparr>),
       observers := [\<lparr>matcher = Path ''/a'', handler = ''h1''\<rparr>,
                     \<lparr>matcher = Path ''/b'', handler = ''h2''\<rparr>],
       effects := [Log ''Connection to host closed.'']\<rparr>"
  by (simp add: session_stale_def observe_def push_observer_def connect_def connect_onclose_def
      connect_onopen_def socket_send_def Socket_new_def RiftSocket_new_def emit_def)

text \<open>
  C4, as stated, fails on two sessions. After a reconnect the close event of the earlier
  transport leaves the session not connected on the live transport; the frame then gets
  one \<open>SUBSCRIBE\<close> out, the first bootstrap request throws, and the second observer is never
  subscribed. With the counter at \<open>2^53\<close> both bootstrap requests get the same id, and only
  the second handler is left in the pending requests.
\<close>

theorem handshake_complete_replay_counterexample:
  "\<not> connected session_stale \<and>
   map_option sent (socket session_stale) = Some [HANDSHAKE] \<and>
   fst (handleWebsocketMessage (\<lambda>t. Some (HANDSHAKE_COMPLETE ''1.0'' ''PC'' ''tok'')) ''[hc]''
          session_stale) = Some (Error ''Not connected.'') \<and>
   map_option sent (socket (snd
     (handleWebsocketMessage (\<lambda>t. Some (HANDSHAKE_COMPLETE ''1.0'' ''PC'' ''tok'')) ''[hc]''
        session_stale))) = Some [HANDSHAKE, SUBSCRIBE ''/a''] \<and>
   requests (snd
     (handleWebsocketMessage (\<lambda>t. Some (HANDSHAKE_COMPLETE ''1.0'' ''PC'' ''tok'')) ''[hc]''
        session_stale)) = Map.empty \<and>
   map_option sent (socket (snd
     (handleWebsocketMessage (\<lambda>t. Some (HANDSHAKE_COMPLETE ''1.0'' ''PC'' ''tok'')) ''[hc]''
        session_full))) =
     Some [SUBSCRIBE ''/a'', REQUEST (2 ^ 53) ''/a'' ''GET'' None,
           SUBSCRIBE ''/b'', REQUEST (2 ^ 53) ''/b'' ''GET'' None] \<and>
   requests (snd
     (handleWebsocketMessage (\<lambda>t. Some (HANDSHAKE_COMPLETE ''1.0'' ''PC'' ''tok'')) ''[hc]''
        session_full)) = [2 ^ 53 \<mapsto> Resolve (Some ''h2'')]"
  by (simp add: session_stale_eq handleWebsocketMessage_def emit_def socket_send_def
      request_then_def request_def promise_then_def matcher_text_def Socket_new_def
      session_full_def RiftSocket_new_def number_succ_def Let_def)

text \<open>
  C4, amended. On a \<open>HANDSHAKE_COMPLETE\<close> frame with version, name and token, received while
  \<open>connected\<close> is true, the session holds a transport and the ids of the bootstrap requests
  stay below \<open>2^53\<close>, the handler stores the three in \<open>computerVersion\<close>, \<open>computerName\<close> and
  \<open>pushNotificationSubscriptionToken\<close> and then, for every registered observer in order,
  sends one \<open>SUBSCRIBE\<close> naming the path or the pattern's source and, for an exact path,
  sends one \<open>REQUEST\<close> for that path whose pending entry carries that observer's handler,
  so that the result of the request goes to it. Nothing is thrown.
\<close>

theorem handshake_complete_replay:
  "JSON_parse d = Some (HANDSHAKE_COMPLETE version name token) \<Longrightarrow>
   connected s \<Longrightarrow> socket s = Some rs \<Longrightarrow>
   idCounter s + length (replay_requests_spec (idCounter s) (observers s)) \<le> 2 ^ 53 \<Longrightarrow>
   handleWebsocketMessage JSON_parse d s =
     (None,
      s\<lparr>pushNotificationSubscriptionToken := token, computerName := name,
        computerVersion := version,
        effects := effects s @ [Log (''Connected to '' @ name), SaveComputerName name],
        idCounter := idCounter s + length (replay_requests_spec (idCounter s) (observers s)),
        socket := Some (rs\<lparr>sent := sent rs @
                     replay_frames_spec (regexps s) (idCounter s) (observers s)\<rparr>),
        requests := requests s ++ replay_pending_spec (idCounter s) (observers s)\<rparr>) \<and>
   [t. SUBSCRIBE t \<leftarrow> replay_frames_spec (regexps s) (idCounter s) (observers s)] =
     map (\<lambda>x. case matcher x of Path p \<Rightarrow> p | Pattern a \<Rightarrow> source (regexps s a)) (observers s) \<and>
   [(j, p, m, b). REQUEST j p m b \<leftarrow> replay_frames_spec (regexps s) (idCounter s) (observers s)] =
     map (\<lambda>(j, p, h). (int j, p, ''GET'', None))
       (replay_requests_spec (idCounter s) (observers s)) \<and>
   map snd (replay_requests_spec (idCounter s) (observers s)) =
     [(p, handler x). x \<leftarrow> observers s, Path p \<leftarrow> [matcher x]] \<and>
   (\<forall>(j, p, h) \<in> set (replay_requests_spec (idCounter s) (observers s)).
      (requests s ++ replay_pending_spec (idCounter s) (observers s)) (int j) =
        Some (Resolve (Some h)))"
proof -
  assume parse: "JSON_parse d = Some (HANDSHAKE_COMPLETE version name token)"
    and con: "connected s" and sock: "socket s = Some rs"
    and bound: "idCounter s + length (replay_requests_spec (idCounter s) (observers s)) \<le> 2 ^ 53"
  let ?t = "s\<lparr>pushNotificationSubscriptionToken := token, computerName := name,
              computerVersion := version,
              effects := effects s @ [Log (''Connected to '' @ name), SaveComputerName name]\<rparr>"
  have h: "handleWebsocketMessage JSON_parse d s = populate (observers ?t) ?t"
    using parse by (simp add: handleWebsocketMessage_def emit_def Let_def)
  have c: "connected ?t" "socket ?t = Some rs"
    "idCounter ?t + length (replay_requests_spec (idCounter ?t) (observers ?t)) \<le> 2 ^ 53"
    using con sock bound by simp_all
  have first: "handleWebsocketMessage JSON_parse d s =
     (None,
      s\<lparr>pushNotificationSubscriptionToken := token, computerName := name,
        computerVersion := version,
        effects := effects s @ [Log (''Connected to '' @ name), SaveComputerName name],
        idCounter := idCounter s + length (replay_requests_spec (idCounter s) (observers s)),
        socket := Some (rs\<lparr>sent := sent rs @
                     replay_frames_spec (regexps s) (idCounter s) (observers s)\<rparr>),
        requests := requests s ++ replay_pending_spec (idCounter s) (observers s)\<rparr>)"
    unfolding h populate_connected [OF c] by simp
  have second: "[t. SUBSCRIBE t \<leftarrow> replay_frames_spec (regexps s) (idCounter s) (observers s)] =
     map (\<lambda>x. case matcher x of Path p \<Rightarrow> p | Pattern a \<Rightarrow> source (regexps s a)) (observers s)"
    by (simp add: replay_frames_subscribes matcher_text_def)
  have last: "\<forall>(j, p, h) \<in> set (replay_requests_spec (idCounter s) (observers s)).
      (requests s ++ replay_pending_spec (idCounter s) (observers s)) (int j) =
        Some (Resolve (Some h))"
    using replay_pending_routes [of _ _ _ "idCounter s" "observers s" "requests s"] by blast
  from first second replay_frames_requests [of "regexps s" "idCounter s" "observers s"]
    replay_requests_observers [of "idCounter s" "observers s"] last
  show ?thesis by blast
qed

lemma session_replay_eq:
  "session_replay =
     Socket_new\<lparr>connected := True, code := ''ABC123'',
       socket := Some ((RiftSocket_new ''ABC123'')
          \<lparr>onopen := Some OnOpen, onmessage := Some HandleWebsocketMessage,
           onclose := Some OnClose, sent := [HANDSHAKE]\<rparr>),
       observers := [\<lparr>matcher = Path ''/lol-gameflow/v1/session'', handler = ''h''\<rparr>]\<rparr>"
  by (simp add: session_replay_def observe_def push_observer_def connect_def
      connect_onopen_def socket_send_def Socket_new_def RiftSocket_new_def)

theorem handshake_complete_replay_witness:
  "connected session_replay \<and>
   handleWebsocketMessage (\<lambda>t. Some (HANDSHAKE_COMPLETE ''1.0'' ''PC'' ''tok'')) ''[hc]''
     session_replay =
     (None,
      session_replay\<lparr>pushNotificationSubscriptionToken := ''tok'', computerName := ''PC'',
        computerVersion := ''1.0'',
        effects := [Log ''Connected to PC'', SaveComputerName ''PC''],
        idCounter := 1,
        socket := Some ((RiftSocket_new ''ABC123'')
          \<lparr>onopen := Some OnOpen, onmessage := Some HandleWebsocketMessage,
           onclose := Some OnClose,
           sent := [HANDSHAKE, SUBSCRIBE ''/lol-gameflow/v1/session'',
                    REQUEST 0 ''/lol-gameflow/v1/session'' ''GET'' None]\<rparr>),
        requests := [0 \<mapsto> Resolve (Some ''h'')]\<rparr>)"
proof -
  let ?rs = "(RiftSocket_new ''ABC123'')
          \<lparr>onopen := Some OnOpen, onmessage := Some HandleWebsocketMessage,
           onclose := Some OnClose, sent := [HANDSHAKE]\<rparr>"
  have con: "connected session_replay" by (simp add: session_replay_eq)
  have sock: "socket session_replay = Some ?rs" by (simp add: session_replay_eq)
  have e: "effects session_replay = []" "idCounter session_replay = 0"
    "observers session_replay = [\<lparr>matcher = Path ''/lol-gameflow/v1/session'', handler = ''h''\<rparr>]"
    "requests session_replay = Map.empty"
    by (simp_all add: session_replay_eq Socket_new_def)
  have bound: "idCounter session_replay +
      length (replay_requests_spec (idCounter session_replay) (observers session_replay)) \<le> 2 ^ 53"
    by (simp add: e)
  from handshake_complete_replay
    [of "\<lambda>t. Some (HANDSHAKE_COMPLETE ''1.0'' ''PC'' ''tok'')" "''[hc]''" "''1.0''" "''PC''"
      "''tok''" session_replay ?rs, OF refl con sock bound]
  have "handleWebsocketMessage (\<lambda>t. Some (HANDSHAKE_COMPLETE ''1.0'' ''PC'' ''tok'')) ''[hc]''
          session_replay =
     (None,
      session_replay\<lparr>pushNotificationSubscriptionToken := ''tok'', computerName := ''PC'',
        computerVersion := ''1.0'',
        effects := effects session_replay @
          [Log (''Connected to '' @ ''PC''), SaveComputerName ''PC''],
        idCounter := idCounter session_replay +
          length (replay_requests_spec (idCounter session_replay)
                 (observers session_replay)),
        socket := Some (?rs\<lparr>sent := sent ?rs @
          replay_frames_spec (regexps session_replay) (idCounter session_replay)
            (observers session_replay)\<rparr>),
        requests := requests session_replay ++
          replay_pending_spec (idCounter session_replay) (observers session_replay)\<rparr>)"
    by blast
  then show ?thesis
    using con by (simp add: e replay_pending_spec_def RiftSocket_new_def)
qed

subsection \<open>Removing observers\<close>

lemma unobserve_filter_None:
  "socket s = None \<Longrightarrow>
   unobserve_filter path xs s =
     (filter (\<lambda>x. case matcher x of Path p \<Rightarrow> p \<noteq> path | Pattern r \<Rightarrow> True) xs, s)"
  by (induction xs arbitrary: s) (simp_all)

lemma unobserve_filter_not_open:
  "socket s = Some rs \<Longrightarrow> readyState rs \<noteq> OPEN \<Longrightarrow>
   unobserve_filter path xs s =
     (filter (\<lambda>x. case matcher x of Path p \<Rightarrow> p \<noteq> path | Pattern r \<Rightarrow> True) xs, s)"
  by (induction xs arbitrary: s) (simp_all)

lemma unobserve_filter_open:
  "socket s = Some rs \<Longrightarrow> readyState rs = OPEN \<Longrightarrow>
   unobserve_filter path xs s =
     (filter (\<lambda>x. case matcher x of Path p \<Rightarrow> p \<noteq> path | Pattern r \<Rightarrow> True) xs,
      s\<lparr>socket := Some (rs\<lparr>sent := sent rs @
           replicate (length (filter (\<lambda>x. matcher x = Path path) xs)) (UNSUBSCRIBE path)\<rparr>)\<rparr>)"
proof (induction xs arbitrary: s rs)
  case Nil
  then show ?case by simp
next
  case (Cons x xs)
  show ?case
  proof (cases "matcher x")
    case (Path p)
    show ?thesis
    proof (cases "p = path")
      case True
      let ?rs = "rs\<lparr>sent := sent rs @ [UNSUBSCRIBE path]\<rparr>"
      let ?s = "s\<lparr>socket := Some ?rs\<rparr>"
      have "socket ?s = Some ?rs" "readyState ?rs = OPEN" using Cons.prems by simp_all
      from Cons.IH [OF this] Cons.prems Path True show ?thesis
        by (simp add: socket_send_def replicate_append_same)
    next
      case False
      with Cons Path show ?thesis by simp
    qed
  next
    case (Pattern r)
    with Cons show ?thesis by simp
  qed
qed

lemma session_twice_eq:
  "session_twice =
     Socket_new\<lparr>connected := True, code := ''ABC123'',
       socket := Some \<lparr>boundCode = ''ABC123'', readyState = OPEN, onopen = Some OnOpen,
                       onmessage = Some HandleWebsocketMessage, onclose = Some OnClose,
                       sent = [HANDSHAKE]\<rparr>,
       observers :=
         [\<lparr>matcher = Path ''/a'', handler = ''h1''\<rparr>,
          \<lparr>matcher = Path ''/a'', handler = ''h2''\<rparr>]\<rparr>"
  by (simp add: session_twice_def observe_def push_observer_def connect_def transport_ready_def
      connect_onopen_def socket_send_def Socket_new_def RiftSocket_new_def)

lemma session_reconnecting_eq:
  "session_reconnecting =
     Socket_new\<lparr>connected := True, connecting := True, code := ''XYZ789'',
       socket := Some \<lparr>boundCode = ''XYZ789'', readyState = CONNECTING, onopen = Some OnOpen,
                       onmessage = Some HandleWebsocketMessage, onclose = Some OnClose,
                       sent = []\<rparr>,
       observers := [\<lparr>matcher = Path ''/a'', handler = ''h1''\<rparr>]\<rparr>"
  by (simp add: session_reconnecting_def observe_def push_observer_def connect_def
      transport_ready_def connect_onopen_def socket_send_def Socket_new_def RiftSocket_new_def)

text \<open>
  C6, as stated, fails on two sessions. With two observers of \<open>/a\<close> on an open transport,
  \<open>unobserve("/a")\<close> sends two \<open>UNSUBSCRIBE\<close> frames where one distinct matcher is removed.
  With \<open>connected\<close> true on a transport that is not open, it sends none.
\<close>

theorem unobserve_counterexample:
  "map_option sent (socket session_twice) = Some [HANDSHAKE] \<and>
   map_option sent (socket (unobserve ''/a'' session_twice)) =
     Some [HANDSHAKE, UNSUBSCRIBE ''/a'', UNSUBSCRIBE ''/a''] \<and>
   unsubscribe_frames_spec ''/a'' session_twice = [UNSUBSCRIBE ''/a''] \<and>
   connected session_reconnecting \<and>
   map_option sent (socket session_reconnecting) = Some [] \<and>
   map_option sent (socket (unobserve ''/a'' session_reconnecting)) = Some [] \<and>
   unsubscribe_frames_spec ''/a'' session_reconnecting = [UNSUBSCRIBE ''/a'']"
  by (simp add: session_twice_eq session_reconnecting_eq unobserve_def unsubscribe_frames_spec_def
      Socket_new_def socket_send_def)

text \<open>
  C6, amended. For every exact path \<open>p\<close>, \<open>unobserve(p)\<close> removes every observer whose matcher
  is the string \<open>p\<close> and keeps the others, patterns included, in their order; if the session
  holds a transport whose \<open>readyState\<close> is \<open>OPEN\<close>, it sends one \<open>UNSUBSCRIBE\<close> for \<open>p\<close> for each
  removed observer, and otherwise none. Nothing else changes and nothing is thrown. When no
  observer has the matcher \<open>p\<close>, the session is unchanged.
\<close>

theorem unobserve_effect:
  "unobserve path s =
     s\<lparr>observers :=
         filter (\<lambda>x. case matcher x of Path p \<Rightarrow> p \<noteq> path | Pattern r \<Rightarrow> True) (observers s),
       socket :=
         (case socket s of
            None \<Rightarrow> None
          | Some rs \<Rightarrow>
              Some (if readyState rs = OPEN
                    then rs\<lparr>sent := sent rs @
                           replicate (length (filter (\<lambda>x. matcher x = Path path) (observers s)))
                             (UNSUBSCRIBE path)\<rparr>
                    else rs))\<rparr> \<and>
   ((\<forall>x \<in> set (observers s). matcher x \<noteq> Path path) \<longrightarrow> unobserve path s = s)"
proof -
  let ?keep = "\<lambda>x::'a Observer. case matcher x of Path p \<Rightarrow> p \<noteq> path | Pattern r \<Rightarrow> True"
  have first: "unobserve path s =
     s\<lparr>observers := filter ?keep (observers s),
       socket :=
         (case socket s of
            None \<Rightarrow> None
          | Some rs \<Rightarrow>
              Some (if readyState rs = OPEN
                    then rs\<lparr>sent := sent rs @
                           replicate (length (filter (\<lambda>x. matcher x = Path path) (observers s)))
                             (UNSUBSCRIBE path)\<rparr>
                    else rs))\<rparr>"
  proof (cases "socket s")
    case None
    then show ?thesis by (simp add: unobserve_def unobserve_filter_None)
  next
    case (Some rs)
    show ?thesis
    proof (cases "readyState rs = OPEN")
      case True
      with Some show ?thesis by (simp add: unobserve_def unobserve_filter_open)
    next
      case False
      with Some show ?thesis by (simp add: unobserve_def unobserve_filter_not_open)
    qed
  qed
  have second: "unobserve path s = s" if none: "\<forall>x \<in> set (observers s). matcher x \<noteq> Path path"
  proof -
    have k: "filter ?keep (observers s) = observers s"
      using none by (auto simp: filter_id_conv split: Matcher.splits)
    have z: "filter (\<lambda>x. matcher x = Path path) (observers s) = []"
      using none by (auto simp: filter_empty_conv)
    show ?thesis
      unfolding first k z by (cases "socket s") simp_all
  qed
  from first second show ?thesis by blast
qed

theorem unobserve_effect_witness:
  "unobserve ''/c'' session_ab = session_ab \<and>
   unobserve ''/a'' session_twice =
     session_twice\<lparr>observers := [],
       socket := Some \<lparr>boundCode = ''ABC123'', readyState = OPEN, onopen = Some OnOpen,
                       onmessage = Some HandleWebsocketMessage, onclose = Some OnClose,
                       sent = [HANDSHAKE, UNSUBSCRIBE ''/a'', UNSUBSCRIBE ''/a'']\<rparr>\<rparr>"
proof -
  have a: "\<forall>x \<in> set (observers session_ab). matcher x \<noteq> Path ''/c''"
    by (simp add: session_ab_def Socket_new_def)
  from a unobserve_effect [of "''/c''" session_ab]
  have b: "unobserve ''/c'' session_ab = session_ab"
    by blast
  from unobserve_effect [of "''/a''" session_twice]
  have c: "unobserve ''/a'' session_twice =
     session_twice\<lparr>observers := [],
       socket := Some \<lparr>boundCode = ''ABC123'', readyState = OPEN, onopen = Some OnOpen,
                       onmessage = Some HandleWebsocketMessage, onclose = Some OnClose,
                       sent = [HANDSHAKE, UNSUBSCRIBE ''/a'', UNSUBSCRIBE ''/a'']\<rparr>\<rparr>"
    by (simp add: session_twice_eq Socket_new_def)
  from b c show ?thesis by simp
qed




subsection \<open>The open event\<close>




subsection \<open>Closing the session\<close>

text \<open>
  C7. \<open>close\<close> on a session that owns a transport sets the transport's three event handlers
  to \<open>null\<close>, then calls the transport's \<open>close\<close> (the transport at that call has no handler
  left), drops the reference and sets \<open>connecting\<close> and \<open>connected\<close> to false. On a session
  that owns no transport it changes nothing.
\<close>

theorem close_session:
  "(socket s = None \<longrightarrow> close s = s) \<and>
   (\<forall>rs. socket s = Some rs \<longrightarrow>
      close s =
        s\<lparr>socket := None, connecting := False, connected := False,
          effects := effects s @
            [SocketClose (rs\<lparr>onopen := None, onmessage := None, onclose := None\<rparr>)]\<rparr>)"
  by (simp add: close_def emit_def)

theorem close_session_witness:
  "close session_ab = session_ab \<and>
   close (connect None ''ABC123'' session_ab) =
     session_ab\<lparr>code := ''ABC123'', effects := [SocketClose (RiftSocket_new ''ABC123'')]\<rparr>"
proof -
  have a: "socket session_ab = None"
    by (simp add: session_ab_def Socket_new_def)
  have b: "socket (connect None ''ABC123'' session_ab) =
             Some ((RiftSocket_new ''ABC123'')
                     \<lparr>onopen := Some OnOpen, onmessage := Some HandleWebsocketMessage,
                      onclose := Some OnClose\<rparr>)"
    by (simp add: connect_def)
  from a b close_session [of session_ab] close_session [of "connect None ''ABC123'' session_ab"]
  show ?thesis
    by (simp add: connect_def session_ab_def Socket_new_def RiftSocket_new_def)
qed

subsection \<open>A frame that is not JSON\<close>

text \<open>
  C8. A text frame that \<open>JSON.parse\<close> rejects is logged and dropped: the router returns
  without an exception, and the session is as before but for the line on the console
  (flags, identity fields, observers, pending requests and id counter are unchanged).
\<close>

theorem malformed_frame_dropped:
  "JSON_parse d = None \<Longrightarrow>
   handleWebsocketMessage JSON_parse d s =
     (None, s\<lparr>effects := effects s @ [Log (d @ '' was not valid JSON, ignoring.'')]\<rparr>)"
  by (simp add: handleWebsocketMessage_def emit_def)

theorem malformed_frame_dropped_witness:
  "handleWebsocketMessage (\<lambda>t. None) ''{oops'' session_ab =
     (None, session_ab\<lparr>effects := [Log ''{oops was not valid JSON, ignoring.'']\<rparr>)"
  using malformed_frame_dropped [of "\<lambda>t. None" "''{oops''" session_ab]
  by (simp add: session_ab_def Socket_new_def)

subsection \<open>The ids of the pending requests\<close>

lemma allocates_refl: "allocates s s"
  by (simp add: allocates_def)

lemma allocates_trans: "allocates s t \<Longrightarrow> allocates t u \<Longrightarrow> allocates s u"
proof -
  assume st: "allocates s t" and tu: "allocates t u"
  from st tu have le: "idCounter s \<le> idCounter t" "idCounter t \<le> idCounter u"
    unfolding allocates_def by simp_all
  have "i \<in> dom (requests s) \<or> (int (idCounter s) \<le> i \<and> i < int (idCounter u))"
    if below: "idCounter u < 2 ^ 53" and i: "i \<in> dom (requests u)" for i
  proof -
    from tu below i
    have "i \<in> dom (requests t) \<or> (int (idCounter t) \<le> i \<and> i < int (idCounter u))"
      unfolding allocates_def by blast
    moreover from below le have bt: "idCounter t < 2 ^ 53" by simp
    have "i \<in> dom (requests s) \<or> (int (idCounter s) \<le> i \<and> i < int (idCounter u))"
      if it: "i \<in> dom (requests t)"
    proof -
      from st bt it
      have "i \<in> dom (requests s) \<or> (int (idCounter s) \<le> i \<and> i < int (idCounter t))"
        unfolding allocates_def by blast
      with le show ?thesis by linarith
    qed
    moreover have "int (idCounter s) \<le> i" if "int (idCounter t) \<le> i"
      using that le by linarith
    ultimately show ?thesis by blast
  qed
  with le show ?thesis unfolding allocates_def by auto
qed

lemma allocates_invariant:
  "allocates s t \<Longrightarrow> idCounter t < 2 ^ 53 \<Longrightarrow> pending_below_counter s \<Longrightarrow>
   pending_below_counter t"
proof -
  assume a: "allocates s t" and b: "idCounter t < 2 ^ 53" and p: "pending_below_counter s"
  have "i < int (idCounter t)" if "i \<in> dom (requests t)" for i
  proof -
    from a b that have "i \<in> dom (requests s) \<or> i < int (idCounter t)"
      unfolding allocates_def by blast
    moreover have "i < int (idCounter t)" if "i \<in> dom (requests s)"
    proof -
      from p that have "i < int (idCounter s)" unfolding pending_below_counter_def by blast
      moreover from a have "idCounter s \<le> idCounter t" unfolding allocates_def by blast
      ultimately show ?thesis by linarith
    qed
    ultimately show ?thesis by blast
  qed
  then show ?thesis unfolding pending_below_counter_def by blast
qed

lemma allocates_socket_send: "allocates s (snd (socket_send f s))"
  by (auto simp: socket_send_def allocates_def split: option.splits)

lemma allocates_emit: "allocates s (emit e s)"
  by (simp add: emit_def allocates_def)

lemma allocates_request: "allocates s (snd (request path meth body s))"
proof (cases "connected s")
  case False
  then show ?thesis by (simp add: request_def allocates_refl)
next
  case True
  have m: "idCounter s \<le> number_succ (idCounter s)" by (rule number_succ_mono)
  have e: "number_succ (idCounter s) = idCounter s + 1" if "number_succ (idCounter s) < 2 ^ 53"
    using number_succ_below [OF that] .
  show ?thesis
  proof (cases "socket s")
    case None
    with True m show ?thesis
      by (simp add: request_def socket_send_def emit_def allocates_def Let_def)
  next
    case (Some rs)
    with True m e show ?thesis
      by (auto simp: request_def socket_send_def allocates_def Let_def)
  qed
qed

lemma allocates_promise_then: "allocates s (promise_then p h s)"
  by (auto simp: promise_then_def allocates_def split: option.splits if_splits)

lemma allocates_request_then: "allocates s (snd (request_then path h s))"
proof (cases "request path None None s")
  case (Pair r s1)
  with allocates_request [of s path None None] have a: "allocates s s1" by simp
  show ?thesis
  proof (cases r)
    case (Inl e)
    with Pair a show ?thesis by (simp add: request_then_def)
  next
    case (Inr p)
    with Pair allocates_trans [OF a allocates_promise_then [of s1 p h]] show ?thesis
      by (simp add: request_then_def)
  qed
qed

lemma allocates_push_observer: "allocates s (push_observer m h s)"
  by (simp add: push_observer_def allocates_def)

lemma allocates_observe: "allocates s (snd (observe m h s))"
proof (cases "connected s")
  case False
  then show ?thesis by (simp add: observe_def allocates_push_observer)
next
  case True
  obtain e1 s1 where
    r1: "(case m of Path p \<Rightarrow> request_then p h s | Pattern r \<Rightarrow> (None, s)) = (e1, s1)"
    by (cases "case m of Path p \<Rightarrow> request_then p h s | Pattern r \<Rightarrow> (None, s)") auto
  have a1: "allocates s s1"
  proof (cases m)
    case (Path p)
    with r1 allocates_request_then [of s p h] show ?thesis by simp
  next
    case (Pattern r)
    with r1 show ?thesis by (simp add: allocates_refl)
  qed
  show ?thesis
  proof (cases e1)
    case (Some e)
    with True r1 a1 show ?thesis by (simp add: observe_def)
  next
    case None
    obtain e2 s2 where
      r2: "socket_send (SUBSCRIBE (matcher_text (regexps s1) m)) s1 = (e2, s2)"
      by (cases "socket_send (SUBSCRIBE (matcher_text (regexps s1) m)) s1") auto
    with allocates_socket_send [of s1 "SUBSCRIBE (matcher_text (regexps s1) m)"]
    have a2: "allocates s1 s2"
      by simp
    have a3: "allocates s s2" by (rule allocates_trans [OF a1 a2])
    show ?thesis
    proof (cases e2)
      case (Some e)
      with True r1 None r2 a3 show ?thesis by (simp add: observe_def)
    next
      case n2: None
      with True r1 None r2 allocates_trans [OF a3 allocates_push_observer [of s2 m h]]
      show ?thesis by (simp add: observe_def)
    qed
  qed
qed

lemma unobserve_filter_pending:
  "idCounter (snd (unobserve_filter path xs s)) = idCounter s \<and>
   requests (snd (unobserve_filter path xs s)) = requests s"
proof (induction xs arbitrary: s)
  case Nil
  show ?case by simp
next
  case (Cons x xs)
  show ?case
    using Cons.IH [of s]
      Cons.IH [of "case socket s of None \<Rightarrow> s
                   | Some rs \<Rightarrow> if readyState rs = OPEN
                       then snd (socket_send (UNSUBSCRIBE path) s) else s"]
    by (auto simp: socket_send_def split: prod.splits option.splits)
qed

lemma allocates_unobserve: "allocates s (unobserve path s)"
proof -
  obtain kept s1 where r: "unobserve_filter path (observers s) s = (kept, s1)"
    by (cases "unobserve_filter path (observers s) s") auto
  with unobserve_filter_pending [of path "observers s" s]
  have "idCounter s1 = idCounter s" "requests s1 = requests s" by simp_all
  with r show ?thesis by (simp add: unobserve_def allocates_def)
qed

lemma allocates_call_handlers: "allocates s (snd (call_handlers r xs s))"
proof (induction xs arbitrary: s)
  case Nil
  show ?case by (simp add: allocates_refl)
next
  case (Cons x xs)
  show ?case
  proof (cases "throws s (handler x) r")
    case None
    with allocates_trans [OF allocates_emit Cons.IH [of "emit (Call (handler x) r) s"]]
    show ?thesis by simp
  next
    case (Some e)
    with allocates_emit [of s "Call (handler x) r"] show ?thesis by simp
  qed
qed

lemma allocates_resolve_request: "allocates s (resolve_request i r s)"
  by (auto simp: resolve_request_def emit_def allocates_def Let_def
           split: option.splits Resolve.splits if_splits)

lemma allocates_populate: "allocates s (snd (populate xs s))"
proof (induction xs arbitrary: s)
  case Nil
  show ?case by (simp add: allocates_refl)
next
  case (Cons x xs)
  obtain e1 s1 where
    r1: "socket_send (SUBSCRIBE (matcher_text (regexps s) (matcher x))) s = (e1, s1)"
    by (cases "socket_send (SUBSCRIBE (matcher_text (regexps s) (matcher x))) s") auto
  with allocates_socket_send [of s "SUBSCRIBE (matcher_text (regexps s) (matcher x))"]
  have a1: "allocates s s1" by simp
  show ?case
  proof (cases e1)
    case (Some e)
    with r1 a1 show ?thesis by simp
  next
    case None
    show ?thesis
    proof (cases "matcher x")
      case (Pattern r)
      with r1 None allocates_trans [OF a1 Cons.IH [of s1]] show ?thesis by simp
    next
      case (Path p)
      obtain e2 s2 where r2: "request_then p (handler x) s1 = (e2, s2)"
        by (cases "request_then p (handler x) s1") auto
      with allocates_request_then [of s1 p "handler x"] have a2: "allocates s1 s2" by simp
      have a3: "allocates s s2" by (rule allocates_trans [OF a1 a2])
      show ?thesis
      proof (cases e2)
        case (Some e)
        with r1 None Path r2 a3 show ?thesis by simp
      next
        case n2: None
        with r1 None Path r2 allocates_trans [OF a3 Cons.IH [of s2]] show ?thesis by simp
      qed
    qed
  qed
qed

lemma allocates_handleWebsocketMessage:
  "allocates s (snd (handleWebsocketMessage JSON_parse d s))"
proof (cases "JSON_parse d")
  case None
  then show ?thesis by (simp add: handleWebsocketMessage_def allocates_emit)
next
  case (Some data)
  show ?thesis
  proof (cases data)
    case (UPDATE path st c)
    obtain kept rx where f: "update_filter path (observers s) (regexps s) = (kept, rx)"
      by (cases "update_filter path (observers s) (regexps s)") auto
    have a: "allocates s (s\<lparr>regexps := rx\<rparr>)" by (simp add: allocates_def)
    obtain e s1 where
      r: "call_handlers \<lparr>status = st, content = c\<rparr> kept (s\<lparr>regexps := rx\<rparr>) = (e, s1)"
      by (cases "call_handlers \<lparr>status = st, content = c\<rparr> kept (s\<lparr>regexps := rx\<rparr>)") auto
    with allocates_call_handlers [of "s\<lparr>regexps := rx\<rparr>" "\<lparr>status = st, content = c\<rparr>" kept]
    have "allocates (s\<lparr>regexps := rx\<rparr>) s1" by simp
    with a have "allocates s s1" by (rule allocates_trans)
    with Some UPDATE f r show ?thesis
      by (cases e) (simp_all add: handleWebsocketMessage_def)
  next
    case (RESPONSE i st c)
    with Some show ?thesis
      by (simp add: handleWebsocketMessage_def allocates_resolve_request)
  next
    case (HANDSHAKE_COMPLETE version name token)
    let ?t = "emit (SaveComputerName name)
                (emit (Log (''Connected to '' @ name)) s
                   \<lparr>pushNotificationSubscriptionToken := token, computerName := name,
                    computerVersion := version\<rparr>)"
    have a: "allocates s ?t" by (simp add: emit_def allocates_def)
    have b: "snd (handleWebsocketMessage JSON_parse d s) = snd (populate (observers ?t) ?t)"
      using Some HANDSHAKE_COMPLETE by (simp add: handleWebsocketMessage_def Let_def emit_def)
    show ?thesis
      unfolding b by (rule allocates_trans [OF a allocates_populate])
  next
    case OTHER
    with Some show ?thesis by (simp add: handleWebsocketMessage_def allocates_refl)
  qed
qed

lemma allocates_close: "allocates s (close s)"
  by (auto simp: close_def emit_def allocates_def Let_def split: option.splits)

lemma allocates_connect: "allocates s (connect e c s)"
  by (auto simp: connect_def emit_def allocates_def Let_def split: option.splits)

lemma allocates_connect_onopen: "allocates s (snd (connect_onopen s))"
  by (auto simp: connect_onopen_def socket_send_def allocates_def split: option.splits)

lemma allocates_connect_onclose: "allocates s (connect_onclose reason s)"
  by (auto simp: connect_onclose_def emit_def allocates_def)

lemma allocates_perform: "allocates s (perform JSON_parse op s)"
  by (cases op)
     (simp_all add: perform_def allocates_observe allocates_unobserve allocates_request
        allocates_handleWebsocketMessage allocates_close allocates_connect tryReconnect_def
        allocates_connect_onopen allocates_connect_onclose)

text \<open>The new object has no pending request, and every run of operations keeps the invariant.\<close>

lemma Socket_new_pending: "pending_below_counter Socket_new"
  by (simp add: pending_below_counter_def Socket_new_def)

lemma allocates_run: "allocates s (foldl (\<lambda>t op. perform JSON_parse op t) s ops)"
proof (induction ops arbitrary: s)
  case Nil
  show ?case by (simp add: allocates_refl)
next
  case (Cons op ops)
  from allocates_trans [OF allocates_perform Cons.IH] show ?case by simp
qed

lemma run_pending:
  "pending_below_counter s \<Longrightarrow>
   idCounter (foldl (\<lambda>t op. perform JSON_parse op t) s ops) < 2 ^ 53 \<Longrightarrow>
   pending_below_counter (foldl (\<lambda>t op. perform JSON_parse op t) s ops)"
  using allocates_invariant [OF allocates_run] by blast

lemma request_allocates_counter:
  "request path meth body s = (Inr i, s') \<Longrightarrow>
   i = int (idCounter s) \<and> idCounter s' = number_succ (idCounter s) \<and>
   dom (requests s') \<subseteq> insert i (dom (requests s))"
  by (auto simp: request_def socket_send_def emit_def Let_def split: if_splits option.splits)

lemma response_only_removes:
  "JSON_parse d = Some (RESPONSE i st c) \<Longrightarrow>
   requests (snd (handleWebsocketMessage JSON_parse d s)) = (requests s)(i := None) \<and>
   idCounter (snd (handleWebsocketMessage JSON_parse d s)) = idCounter s"
  by (auto simp: handleWebsocketMessage_def resolve_request_def emit_def Let_def
           split: option.splits Resolve.splits)

text \<open>
  C9, as stated, fails when the counter has reached \<open>2^53\<close>: \<open>idCounter++\<close> no longer changes
  it, so \<open>request\<close> hands out \<open>2^53\<close>, and for the next request \<open>2^53\<close> again, while the first
  one is outstanding.
\<close>

theorem pending_ids_counterexample:
  "pending_below_counter session_full \<and>
   fst (request ''/x'' None None session_full) = Inr (2 ^ 53) \<and>
   idCounter (snd (request ''/x'' None None session_full)) = 2 ^ 53 \<and>
   requests (snd (request ''/x'' None None session_full)) (2 ^ 53) = Some (Resolve None) \<and>
   \<not> pending_below_counter (snd (request ''/x'' None None session_full)) \<and>
   fst (request ''/y'' None None (snd (request ''/x'' None None session_full))) = Inr (2 ^ 53)"
  by (simp add: pending_below_counter_def request_def socket_send_def session_full_def
      Socket_new_def RiftSocket_new_def number_succ_def Let_def)

text \<open>
  C9, amended. The pending requests are kept under their ids. As long as the counter is
  below \<open>2^53\<close>, the range in which a JavaScript number counts exactly: every operation
  keeps the invariant that all outstanding ids lie below the counter; \<open>request\<close> hands out
  the counter's value, which is the id of no outstanding request, and counts up by one,
  so no later request gets that id again. No operation lowers the counter, and a
  \<open>RESPONSE\<close> frame only removes the entry under its id.
\<close>

theorem pending_ids_invariant:
  "pending_below_counter s \<Longrightarrow>
   (idCounter (perform JSON_parse op s) < 2 ^ 53 \<longrightarrow>
      pending_below_counter (perform JSON_parse op s)) \<and>
   idCounter s \<le> idCounter (perform JSON_parse op s) \<and>
   (idCounter s < 2 ^ 53 \<longrightarrow>
      (\<forall>i s'. request path meth body s = (Inr i, s') \<longrightarrow>
         i = int (idCounter s) \<and> idCounter s' = idCounter s + 1 \<and> requests s i = None \<and>
         dom (requests s') \<subseteq> insert i (dom (requests s)))) \<and>
   (\<forall>i st c. JSON_parse d = Some (RESPONSE i st c) \<longrightarrow>
      requests (snd (handleWebsocketMessage JSON_parse d s)) = (requests s)(i := None) \<and>
      idCounter (snd (handleWebsocketMessage JSON_parse d s)) = idCounter s)"
proof -
  assume inv: "pending_below_counter s"
  have a: "allocates s (perform JSON_parse op s)" by (rule allocates_perform)
  have p1: "pending_below_counter (perform JSON_parse op s)"
    if "idCounter (perform JSON_parse op s) < 2 ^ 53"
    by (rule allocates_invariant [OF a that inv])
  have p2: "idCounter s \<le> idCounter (perform JSON_parse op s)"
    using a by (simp add: allocates_def)
  have fresh: "requests s (int (idCounter s)) = None"
    using inv unfolding pending_below_counter_def
    by (cases "requests s (int (idCounter s))") auto
  have p3: "\<forall>i s'. request path meth body s = (Inr i, s') \<longrightarrow>
      i = int (idCounter s) \<and> idCounter s' = idCounter s + 1 \<and> requests s i = None \<and>
      dom (requests s') \<subseteq> insert i (dom (requests s))"
    if "idCounter s < 2 ^ 53"
    using request_allocates_counter [of path meth body s] fresh number_succ_exact [OF that]
    by auto
  have p4: "\<forall>i st c. JSON_parse d = Some (RESPONSE i st c) \<longrightarrow>
      requests (snd (handleWebsocketMessage JSON_parse d s)) = (requests s)(i := None) \<and>
      idCounter (snd (handleWebsocketMessage JSON_parse d s)) = idCounter s"
    using response_only_removes [of JSON_parse d _ _ _ s] by blast
  from p1 p2 p3 p4 show ?thesis by blast
qed

theorem pending_ids_invariant_witness:
  "pending_below_counter session_live \<and>
   pending_below_counter (perform (\<lambda>t. None) (Request ''/x'' None None) session_live) \<and>
   fst (request ''/x'' None None session_live) = Inr 2 \<and>
   idCounter (snd (request ''/x'' None None session_live)) = 3 \<and>
   requests session_live 2 = None \<and>
   requests (snd (handleWebsocketMessage (\<lambda>t. Some (RESPONSE 1 200 JNull)) ''[r1]''
     session_live)) = [0 \<mapsto> Resolve None]"
proof -
  have inv: "pending_below_counter session_live"
    by (simp add: pending_below_counter_def session_live_def Socket_new_def)
  have cnt: "idCounter session_live = 2"
    by (simp add: session_live_def Socket_new_def)
  obtain s' where r: "request ''/x'' None None session_live = (Inr 2, s')"
    by (simp add: request_def socket_send_def session_live_def Socket_new_def Let_def)
  have after: "idCounter (perform (\<lambda>t. None) (Request ''/x'' None None) session_live) < 2 ^ 53"
    by (simp add: perform_def request_def socket_send_def session_live_def Socket_new_def
        number_succ_def Let_def)
  have c: "(requests session_live)(1 := None) = [0 \<mapsto> Resolve None]"
    by (simp add: session_live_def Socket_new_def)
  from pending_ids_invariant
    [OF inv, of "\<lambda>t. None" "Request ''/x'' None None" "''/x''" None None "''[r1]''"] after cnt
  have a: "pending_below_counter (perform (\<lambda>t. None) (Request ''/x'' None None) session_live)"
    and b: "\<forall>i s'. request ''/x'' None None session_live = (Inr i, s') \<longrightarrow>
              i = int (idCounter session_live) \<and> idCounter s' = idCounter session_live + 1 \<and>
              requests session_live i = None \<and>
              dom (requests s') \<subseteq> insert i (dom (requests session_live))"
    by simp_all
  from b r cnt have b': "idCounter s' = 3" "requests session_live 2 = None" by auto
  from pending_ids_invariant
    [OF inv, of "\<lambda>t. Some (RESPONSE 1 200 JNull)" Close "''/x''" None None "''[r1]''"]
  have d: "requests (snd (handleWebsocketMessage (\<lambda>t. Some (RESPONSE 1 200 JNull)) ''[r1]''
             session_live)) = (requests session_live)(1 := None)"
    by blast
  from inv a r b' c d show ?thesis by simp
qed

subsection \<open>The close event during a connection attempt\<close>

text \<open>
  C10. When the transport's close event fires while \<open>connecting\<close> is true, the handler logs
  the reason and returns: \<open>connecting\<close> stays true, and \<open>connected\<close>, the transport, the
  stored code, the observers and the pending requests are unchanged.
\<close>

theorem onclose_while_connecting:
  "connecting s \<Longrightarrow>
   connect_onclose reason s =
     s\<lparr>effects := effects s @ [Log (''Closed unexpectedly ('' @ reason @ '')'')]\<rparr> \<and>
   connecting (connect_onclose reason s)"
  by (simp add: connect_onclose_def emit_def)

theorem onclose_while_connecting_witness:
  "connecting (connect None ''ABC123'' session_ab) \<and>
   connect_onclose ''timeout'' (connect None ''ABC123'' session_ab) =
     (connect None ''ABC123'' session_ab)\<lparr>effects := [Log ''Closed unexpectedly (timeout)'']\<rparr>"
  using onclose_while_connecting [of "connect None ''ABC123'' session_ab" "''timeout''"]
  by (simp add: connect_def session_ab_def Socket_new_def)

end
